theory Spec2Isabelle
  imports Main "HOL-Library.Sublist"
begin

section \<open>Python integers rendered as text\<close>

text \<open>
  The program formats the parts of a date with f-strings: \<^verbatim>\<open>{year}\<close> is \<^verbatim>\<open>str(year)\<close>, the
  decimal digits with no padding, and \<^verbatim>\<open>{month:02d}\<close> pads with zeros to a width of two.
  Python integers are unbounded, so they are \<^typ>\<open>int\<close> here.
\<close>

definition digit_char :: "nat \<Rightarrow> char" where
  "digit_char d = ''0123456789'' ! d"

fun str_nat :: "nat \<Rightarrow> string" where
  "str_nat n = (if n < 10 then [digit_char n] else str_nat (n div 10) @ [digit_char (n mod 10)])"

declare str_nat.simps [simp del]

text \<open>\<^verbatim>\<open>str(n)\<close>, which is also what \<^verbatim>\<open>f"{n}"\<close> gives.\<close>

definition py_str :: "int \<Rightarrow> string" where
  "py_str n = (if n < 0 then CHR ''-'' # str_nat (nat (- n)) else str_nat (nat n))"

text \<open>
  \<^verbatim>\<open>format(n, "0Wd")\<close> and \<^verbatim>\<open>"%0Wd" % n\<close>: zeros fill the field up to width \<open>W\<close>, after the sign
  when there is one; a number that is already wider is left as it is.
\<close>

definition py_format_0d :: "nat \<Rightarrow> int \<Rightarrow> string" where
  "py_format_0d w n =
     (if n < 0
      then CHR ''-'' # replicate (w - 1 - length (str_nat (nat (- n)))) CHR ''0'' @ str_nat (nat (- n))
      else replicate (w - length (str_nat (nat n))) CHR ''0'' @ str_nat (nat n))"

section \<open>Dates\<close>

text \<open>
  A \<^verbatim>\<open>datetime.date\<close> holds a year, a month and a day. Its constructor refuses anything
  but a day that exists, with the year between 1 and 9999: \<open>valid_date\<close> is that check.
  \<^verbatim>\<open>weekday()\<close> is \<^verbatim>\<open>(toordinal() + 6) % 7\<close>, and the ordinal counts days from 0001-01-01
  with the Gregorian leap-year rule.
\<close>

record date =
  year :: int
  month :: int
  day :: int

definition is_leap :: "int \<Rightarrow> bool" where
  "is_leap y = (y mod 4 = 0 \<and> (y mod 100 \<noteq> 0 \<or> y mod 400 = 0))"

definition DAYS_IN_MONTH :: "int list" where
  "DAYS_IN_MONTH = [-1, 31, 28, 31, 30, 31, 30, 31, 31, 30, 31, 30, 31]"

definition days_in_month :: "int \<Rightarrow> int \<Rightarrow> int" where
  "days_in_month y m = (if m = 2 \<and> is_leap y then 29 else DAYS_IN_MONTH ! nat m)"

definition valid_date :: "date \<Rightarrow> bool" where
  "valid_date d =
     (1 \<le> year d \<and> year d \<le> 9999 \<and> 1 \<le> month d \<and> month d \<le> 12 \<and>
      1 \<le> day d \<and> day d \<le> days_in_month (year d) (month d))"

definition days_before_year :: "int \<Rightarrow> int" where
  "days_before_year yr = (let y = yr - 1 in y * 365 + y div 4 - y div 100 + y div 400)"

definition DAYS_BEFORE_MONTH :: "int list" where
  "DAYS_BEFORE_MONTH = [-1, 0, 31, 59, 90, 120, 151, 181, 212, 243, 273, 304, 334]"

definition days_before_month :: "int \<Rightarrow> int \<Rightarrow> int" where
  "days_before_month y m = DAYS_BEFORE_MONTH ! nat m + (if m > 2 \<and> is_leap y then 1 else 0)"

definition toordinal :: "date \<Rightarrow> int" where
  "toordinal d = days_before_year (year d) + days_before_month (year d) (month d) + day d"

definition weekday :: "date \<Rightarrow> int" where
  "weekday d = (toordinal d + 6) mod 7"

text \<open>\<^verbatim>\<open>isoformat()\<close> is \<^verbatim>\<open>"%04d-%02d-%02d" % (year, month, day)\<close>.\<close>

definition isoformat :: "date \<Rightarrow> string" where
  "isoformat d =
     py_format_0d 4 (year d) @ ''-'' @ py_format_0d 2 (month d) @ ''-'' @ py_format_0d 2 (day d)"

section \<open>Errors\<close>

text \<open>
  Every exception the modelled code can raise is a value. \<open>KeyError\<close> is the month lookup
  given a month outside 1..12. \<open>NoTablesFound\<close> is the program's own
  \<^verbatim>\<open>ValueError("No se encontraron tablas en el PDF.")\<close>. The others come from pandas:
  \<open>ShapeMismatch\<close> is the \<^verbatim>\<open>ValueError\<close> of the \<^verbatim>\<open>DataFrame\<close> constructor when the number of
  column names is not the width of the data, \<open>NoObjects\<close> is the \<^verbatim>\<open>ValueError\<close> of \<^verbatim>\<open>concat\<close> given no
  frame at all, \<open>InvalidIndexError\<close> is raised by \<^verbatim>\<open>concat\<close>
  when it has to realign a frame whose column names repeat, and \<open>AlreadyExists\<close> is the
  \<^verbatim>\<open>ValueError\<close> of \<^verbatim>\<open>insert\<close> for a column name that is already there.
\<close>

datatype error =
  KeyError | NoTablesFound | ShapeMismatch | NoObjects | InvalidIndexError | AlreadyExists

section \<open>Date gate\<close>

text \<open>\<^verbatim>\<open>return fecha.weekday() < 5  # 0=Lunes, 6=Domingo\<close>\<close>

definition es_dia_habil :: "date \<Rightarrow> bool" where
  "es_dia_habil fecha = (weekday fecha < 5)"

section \<open>Candidate URLs\<close>

definition SPANISH_MONTHS :: "(int \<times> string) list" where
  "SPANISH_MONTHS =
     [(1, ''enero''), (2, ''febrero''), (3, ''marzo''), (4, ''abril''), (5, ''mayo''),
      (6, ''junio''), (7, ''julio''), (8, ''agosto''), (9, ''septiembre''),
      (10, ''octubre''), (11, ''noviembre''), (12, ''diciembre'')]"

text \<open>
  \<^verbatim>\<open>SPANISH_MONTHS[month]\<close> raises \<^verbatim>\<open>KeyError\<close> for a key that is not in the dictionary; the
  three f-strings follow the source one by one.
\<close>

definition construir_urls_candidatas :: "date \<Rightarrow> error + string list" where
  "construir_urls_candidatas fecha =
     (case map_of SPANISH_MONTHS (month fecha) of
        None \<Rightarrow> Inl KeyError
      | Some mes_nombre \<Rightarrow>
          (let base = ''https://corabastos.com.co/wp-content/uploads/'' @ py_str (year fecha)
                        @ ''/'' @ py_format_0d 2 (month fecha) @ ''/''
           in Inr
             [base @ ''Boletin-'' @ py_format_0d 2 (day fecha) @ mes_nombre
                @ py_str (year fecha) @ ''.pdf'',
              base @ ''Boletin-'' @ py_str (day fecha) @ mes_nombre
                @ py_str (year fecha) @ ''.pdf'',
              base @ ''Boletin_diario_'' @ py_str (year fecha) @ py_format_0d 2 (month fecha)
                @ py_format_0d 2 (day fecha) @ ''.pdf'']))"

section \<open>Document locator\<close>

text \<open>
  \<^verbatim>\<open>requests.get(url, timeout=20)\<close> is the external fetch: it either raises or returns a
  response with a status code, headers and a body. The outside world is a state \<open>'w\<close> that
  each call may change, so the same URL asked twice may answer differently. Of the headers
  only \<^verbatim>\<open>Content-Type\<close> is read, with \<^verbatim>\<open>""\<close> as the default when it is missing.
\<close>

datatype 'b fetch_result = Raised | Response int "string option" 'b

text \<open>
  \<^verbatim>\<open>str.lower()\<close> on a header value. The HTTP client decodes header bytes as Latin-1, so
  every character is one of the 256 that \<^typ>\<open>char\<close> has; among those the upper-case ones
  are A..Z and the accented capitals 192..222 (215, the multiplication sign, is not a
  letter), and each lower-case partner is 32 further on.
\<close>

definition lower_char :: "char \<Rightarrow> char" where
  "lower_char c =
     (let n = (of_char c :: nat)
      in if (65 \<le> n \<and> n \<le> 90) \<or> (192 \<le> n \<and> n \<le> 222 \<and> n \<noteq> 215)
         then char_of (n + 32) else c)"

definition py_lower :: "string \<Rightarrow> string" where
  "py_lower s = map lower_char s"

text \<open>
  The test of the loop body: \<^verbatim>\<open>resp.status_code == 200 and "pdf" in content_type\<close>.
  Python's \<^verbatim>\<open>in\<close> on strings asks for a contiguous occurrence, which is \<^const>\<open>sublist\<close>.
  A call that raised is caught by \<^verbatim>\<open>except Exception\<close> and accepts nothing.
\<close>

definition aceptada :: "'b fetch_result \<Rightarrow> bool" where
  "aceptada r =
     (case r of
        Raised \<Rightarrow> False
      | Response status_code header body \<Rightarrow>
          (let content_type = py_lower (case header of None \<Rightarrow> [] | Some v \<Rightarrow> v)
           in status_code = 200 \<and> sublist ''pdf'' content_type))"

text \<open>
  The loop over the candidates. The result is the payload if any, the URLs that were
  passed to the fetch in the order of the calls, and the world after the last call.
\<close>

fun probar_urls ::
  "('w \<Rightarrow> string \<Rightarrow> 'b fetch_result \<times> 'w) \<Rightarrow> string list \<Rightarrow> 'w
     \<Rightarrow> 'b option \<times> string list \<times> 'w" where
  "probar_urls get [] w = (None, [], w)"
| "probar_urls get (url # urls) w =
     (case get w url of
        (Response status_code header body, w') \<Rightarrow>
          if aceptada (Response status_code header body) then (Some body, [url], w')
          else (case probar_urls get urls w' of (res, tried, w'') \<Rightarrow> (res, url # tried, w''))
      | (Raised, w') \<Rightarrow>
          (case probar_urls get urls w' of (res, tried, w'') \<Rightarrow> (res, url # tried, w'')))"

definition descargar_pdf ::
  "('w \<Rightarrow> string \<Rightarrow> 'b fetch_result \<times> 'w) \<Rightarrow> date \<Rightarrow> 'w
     \<Rightarrow> error + 'b option \<times> string list \<times> 'w" where
  "descargar_pdf get fecha w =
     (case construir_urls_candidatas fecha of
        Inl e \<Rightarrow> Inl e
      | Inr urls \<Rightarrow> Inr (probar_urls get urls w))"

section \<open>Tables and data frames\<close>

text \<open>
  The parser hands over, for each page in document order, the tables it detected there in
  detection order; a table is a list of rows and a row a list of cells, each a text or
  \<^verbatim>\<open>None\<close>. That is the input of the extraction below: opening the bytes and detecting
  the table regions is the parser's work.

  A pandas cell is a text, an integer or one of the three values that \<^verbatim>\<open>isna\<close> takes for
  missing: \<^verbatim>\<open>None\<close>, \<^verbatim>\<open>NaN\<close> and \<^verbatim>\<open>pd.NA\<close>. A column name is whatever the header cell was,
  so it may be \<^verbatim>\<open>None\<close> too. A frame is its column names and its rows, each row as wide as
  the names.
\<close>

type_synonym raw_table = "string option list list"
type_synonym page = "raw_table list"

datatype cell = VNone | VNaN | VNA | VStr string | VInt int

type_synonym label = "string option"

record dataframe =
  columns :: "label list"
  rows :: "cell list list"

definition of_text :: "string option \<Rightarrow> cell" where
  "of_text c = (case c of None \<Rightarrow> VNone | Some s \<Rightarrow> VStr s)"

text \<open>
  \<^verbatim>\<open>pd.DataFrame(rows, columns=header)\<close> on a list of lists: the data is as wide as its
  widest row, shorter rows are filled with \<^verbatim>\<open>None\<close>, and a header of any other length is
  refused.
\<close>

definition DataFrame :: "string option list list \<Rightarrow> label list \<Rightarrow> error + dataframe" where
  "DataFrame rs header =
     (let k = fold max (map length rs) 0
      in if length header \<noteq> k then Inl ShapeMismatch
         else Inr \<lparr>columns = header,
                   rows = map (\<lambda>r. map of_text r @ replicate (k - length r) VNone) rs\<rparr>)"

text \<open>
  \<^verbatim>\<open>df[key] = v\<close> with a scalar: every column called \<open>key\<close> is overwritten in every row; when
  there is none, a new last column is added.
\<close>

definition setitem :: "dataframe \<Rightarrow> label \<Rightarrow> cell \<Rightarrow> dataframe" where
  "setitem df key v =
     (if key \<in> set (columns df)
      then df\<lparr>rows := map (\<lambda>r. map (\<lambda>(c, x). if c = key then v else x) (zip (columns df) r))
                         (rows df)\<rparr>
      else \<lparr>columns = columns df @ [key], rows = map (\<lambda>r. r @ [v]) (rows df)\<rparr>)"

text \<open>
  \<^verbatim>\<open>pd.concat(frames, ignore_index=True)\<close>. When all frames have the same column names the
  rows are stacked as they are. Otherwise the names are united in order of first
  appearance and every frame whose names differ from the union is realigned by name, with
  \<^verbatim>\<open>NaN\<close> where it has no such column; realigning needs the names of the frame to be
  unique and raises if they are not. An empty list of frames is refused.
\<close>

definition unique_labels :: "label list \<Rightarrow> label list" where
  "unique_labels xs = fold (\<lambda>x acc. if x \<in> set acc then acc else acc @ [x]) xs []"

fun index_of :: "'a \<Rightarrow> 'a list \<Rightarrow> nat option" where
  "index_of x [] = None"
| "index_of x (y # ys) = (if x = y then Some 0 else map_option Suc (index_of x ys))"

definition reindex :: "label list \<Rightarrow> label list \<Rightarrow> cell list \<Rightarrow> cell list" where
  "reindex new old r = map (\<lambda>c. case index_of c old of None \<Rightarrow> VNaN | Some i \<Rightarrow> r ! i) new"

definition pd_concat :: "dataframe list \<Rightarrow> error + dataframe" where
  "pd_concat dfs =
     (case dfs of
        [] \<Rightarrow> Inl NoObjects
      | df0 # rest \<Rightarrow>
          if list_all (\<lambda>df. columns df = columns df0) rest
          then Inr \<lparr>columns = columns df0, rows = concat (map rows dfs)\<rparr>
          else
            (let new = unique_labels (concat (map columns dfs))
             in if list_ex (\<lambda>df. columns df \<noteq> new \<and> \<not> distinct (columns df)) dfs
                then Inl InvalidIndexError
                else Inr \<lparr>columns = new,
                          rows = concat (map (\<lambda>df. if columns df = new then rows df
                                                   else map (reindex new (columns df)) (rows df))
                                          dfs)\<rparr>))"

text \<open>\<^verbatim>\<open>df.replace("", pd.NA)\<close>, \<^verbatim>\<open>pd.isna\<close> and \<^verbatim>\<open>df.dropna(how="all")\<close>.\<close>

definition vacio_a_na :: "cell \<Rightarrow> cell" where
  "vacio_a_na x = (if x = VStr [] then VNA else x)"

definition replace_empty :: "dataframe \<Rightarrow> dataframe" where
  "replace_empty df = df\<lparr>rows := map (map vacio_a_na) (rows df)\<rparr>"

definition isna :: "cell \<Rightarrow> bool" where
  "isna x = (x = VNone \<or> x = VNaN \<or> x = VNA)"

definition dropna_all :: "dataframe \<Rightarrow> dataframe" where
  "dropna_all df = df\<lparr>rows := filter (\<lambda>r. \<not> list_all isna r) (rows df)\<rparr>"

text \<open>\<^verbatim>\<open>df.insert(0, key, v)\<close> refuses a name that is already a column.\<close>

definition insert0 :: "dataframe \<Rightarrow> label \<Rightarrow> cell \<Rightarrow> error + dataframe" where
  "insert0 df key v =
     (if key \<in> set (columns df) then Inl AlreadyExists
      else Inr \<lparr>columns = key # columns df, rows = map (\<lambda>r. v # r) (rows df)\<rparr>)"

section \<open>Table extraction\<close>

text \<open>
  The inner loop, over the tables of one page: \<open>table_idx\<close> counts from 0 and counts the
  skipped tables too. A table that is empty or has fewer than two rows is skipped; an
  exception of the constructor ends the whole extraction.
\<close>

fun tablas_de_pagina ::
  "int \<Rightarrow> int \<Rightarrow> raw_table list \<Rightarrow> dataframe list \<Rightarrow> error + dataframe list" where
  "tablas_de_pagina page_num table_idx [] all_tables = Inr all_tables"
| "tablas_de_pagina page_num table_idx (table # tables) all_tables =
     (if table = [] \<or> length table < 2
      then tablas_de_pagina page_num (table_idx + 1) tables all_tables
      else (case DataFrame (tl table) (hd table) of
              Inl e \<Rightarrow> Inl e
            | Inr df \<Rightarrow>
                tablas_de_pagina page_num (table_idx + 1) tables
                  (all_tables @
                     [setitem (setitem df (Some ''pagina'') (VInt page_num))
                        (Some ''tabla'') (VInt (table_idx + 1))])))"

text \<open>The outer loop, over the pages, counted from 1.\<close>

fun paginas :: "int \<Rightarrow> page list \<Rightarrow> dataframe list \<Rightarrow> error + dataframe list" where
  "paginas page_num [] all_tables = Inr all_tables"
| "paginas page_num (pg # pgs) all_tables =
     (case tablas_de_pagina page_num 0 pg all_tables of
        Inl e \<Rightarrow> Inl e
      | Inr acc \<Rightarrow> paginas (page_num + 1) pgs acc)"

definition extraer_tablas_pdf :: "page list \<Rightarrow> error + dataframe" where
  "extraer_tablas_pdf pdf =
     (case paginas 1 pdf [] of
        Inl e \<Rightarrow> Inl e
      | Inr all_tables \<Rightarrow>
          if all_tables = [] then Inl NoTablesFound
          else (case pd_concat all_tables of
                  Inl e \<Rightarrow> Inl e
                | Inr df_total \<Rightarrow> Inr (dropna_all (replace_empty df_total))))"

section \<open>Row normalizer\<close>

definition agregar_fecha :: "dataframe \<Rightarrow> date \<Rightarrow> error + dataframe" where
  "agregar_fecha df fecha = insert0 df (Some ''Fecha'') (VStr (isoformat fecha))"

section \<open>Sink writer\<close>

text \<open>
  The worksheet is the external store. It is modelled at its interface: the grid that
  \<^verbatim>\<open>get_all_values\<close> returns, row by row, and the write calls it has received, so that
  a call that was not made shows. \<^verbatim>\<open>append_row\<close> and \<^verbatim>\<open>append_rows\<close> add rows after the
  last one.
\<close>

datatype write_call = AppendRow "cell list" | AppendRows "cell list list"

record worksheet =
  grid :: "cell list list"
  calls :: "write_call list"

definition get_all_values :: "worksheet \<Rightarrow> cell list list" where
  "get_all_values ws = grid ws"

definition append_row :: "worksheet \<Rightarrow> cell list \<Rightarrow> worksheet" where
  "append_row ws r = \<lparr>grid = grid ws @ [r], calls = calls ws @ [AppendRow r]\<rparr>"

definition append_rows :: "worksheet \<Rightarrow> cell list list \<Rightarrow> worksheet" where
  "append_rows ws rs = \<lparr>grid = grid ws @ rs, calls = calls ws @ [AppendRows rs]\<rparr>"

definition inicializar_encabezados_si_vacio :: "worksheet \<Rightarrow> dataframe \<Rightarrow> worksheet" where
  "inicializar_encabezados_si_vacio ws df =
     (let existing = get_all_values ws
      in if existing = [] then append_row ws (map of_text (columns df)) else ws)"

definition append_df_to_sheet :: "worksheet \<Rightarrow> dataframe \<Rightarrow> worksheet" where
  "append_df_to_sheet ws df =
     (let vals = rows df in if vals \<noteq> [] then append_rows ws vals else ws)"

section \<open>Notions of the specification\<close>

text \<open>
  The definitions of this section are not code of the program. They say what the
  specification means by some of its words, so that the theorems below can compare those
  with what the program computes.

  A number zero-padded to two digits, and to four.
\<close>

definition two_digits :: "int \<Rightarrow> string" where
  "two_digits n = [digit_char (nat (n div 10 mod 10)), digit_char (nat (n mod 10))]"

definition four_digits :: "int \<Rightarrow> string" where
  "four_digits n =
     [digit_char (nat (n div 1000 mod 10)), digit_char (nat (n div 100 mod 10)),
      digit_char (nat (n div 10 mod 10)), digit_char (nat (n mod 10))]"

text \<open>
  What the fetch would answer to each URL of a list if every one of them were asked, in
  order; the world after asking them; and the body of a response.
\<close>

fun respuestas ::
  "('w \<Rightarrow> string \<Rightarrow> 'b fetch_result \<times> 'w) \<Rightarrow> string list \<Rightarrow> 'w \<Rightarrow> 'b fetch_result list" where
  "respuestas get [] w = []"
| "respuestas get (url # urls) w = (case get w url of (r, w') \<Rightarrow> r # respuestas get urls w')"

fun mundo_tras :: "('w \<Rightarrow> string \<Rightarrow> 'b fetch_result \<times> 'w) \<Rightarrow> string list \<Rightarrow> 'w \<Rightarrow> 'w" where
  "mundo_tras get [] w = w"
| "mundo_tras get (url # urls) w = mundo_tras get urls (snd (get w url))"

fun cuerpo :: "'b fetch_result \<Rightarrow> 'b option" where
  "cuerpo Raised = None"
| "cuerpo (Response status_code header body) = Some body"

text \<open>
  A small world for examples: the state counts the calls; the first call raises, the second
  answers 200 with a web page, the third 200 with a PDF, any later one 404.
\<close>

definition mundo_ejemplo :: "nat \<Rightarrow> string \<Rightarrow> string fetch_result \<times> nat" where
  "mundo_ejemplo n url =
     (if n = 0 then Raised
      else if n = 1 then Response 200 (Some ''text/html'') ''<html>''
      else if n = 2 then Response 200 (Some ''Application/PDF'') ''%PDF-1.7''
      else Response 404 None [],
      Suc n)"

text \<open>
  The cells of a row that stand in the columns called \<open>key\<close>, and a row that carries the
  page number \<open>p\<close> and the table number \<open>k\<close>: it has a \<open>pagina\<close> column and a \<open>tabla\<close>
  column, and every cell in them is that integer.
\<close>

definition celdas :: "label list \<Rightarrow> label \<Rightarrow> cell list \<Rightarrow> cell list" where
  "celdas cols key r = map snd (filter (\<lambda>(c, x). c = key) (zip cols r))"

definition etiquetada :: "label list \<Rightarrow> int \<Rightarrow> int \<Rightarrow> cell list \<Rightarrow> bool" where
  "etiquetada cols p k r =
     (set (celdas cols (Some ''pagina'') r) = {VInt p} \<and>
      set (celdas cols (Some ''tabla'') r) = {VInt k})"

text \<open>
  The usable tables of a document, in document order, and a table whose rows are all as
  wide as its header, which is how the parser delivers them.
\<close>

definition tablas_utiles :: "page list \<Rightarrow> raw_table list" where
  "tablas_utiles pdf = filter (\<lambda>t. 2 \<le> length t) (concat pdf)"

definition rectangular :: "raw_table \<Rightarrow> bool" where
  "rectangular t = list_all (\<lambda>r. length r = length (hd t)) t"

text \<open>
  Another world for examples: every call answers 206, partial content, with a PDF content
  type and a body. In HTTP the statuses from 200 to 299 are the successful ones.
\<close>

definition mundo_parcial :: "nat \<Rightarrow> string \<Rightarrow> string fetch_result \<times> nat" where
  "mundo_parcial n url = (Response 206 (Some ''application/pdf'') ''%PDF-1.7'', Suc n)"

definition estado_de_exito :: "int \<Rightarrow> bool" where
  "estado_de_exito status_code = (200 \<le> status_code \<and> status_code < 300)"

section \<open>Auxiliary notions for the proofs\<close>

text \<open>
  The frame one usable table turns into; the usable tables of a page and of a document with
  the page and table numbers the loops give them; the frames of a list of such tables, up
  to the first exception; a frame whose rows are as wide as its column names; a frame all
  of whose rows carry one page and table number; the number of data rows a tagged table
  adds under a given pair of numbers; and the column names of a frame made from a header.
\<close>

definition marco :: "int \<Rightarrow> int \<Rightarrow> raw_table \<Rightarrow> error + dataframe" where
  "marco p k t =
     (case DataFrame (tl t) (hd t) of
        Inl e \<Rightarrow> Inl e
      | Inr df \<Rightarrow> Inr (setitem (setitem df (Some ''pagina'') (VInt p)) (Some ''tabla'') (VInt k)))"

fun utiles_pagina :: "int \<Rightarrow> int \<Rightarrow> raw_table list \<Rightarrow> (int \<times> int \<times> raw_table) list" where
  "utiles_pagina p k [] = []"
| "utiles_pagina p k (t # ts) =
     (if length t < 2 then utiles_pagina p (k + 1) ts
      else (p, k + 1, t) # utiles_pagina p (k + 1) ts)"

fun utiles :: "int \<Rightarrow> page list \<Rightarrow> (int \<times> int \<times> raw_table) list" where
  "utiles p [] = []"
| "utiles p (pg # pgs) = utiles_pagina p 0 pg @ utiles (p + 1) pgs"

fun marcos :: "(int \<times> int \<times> raw_table) list \<Rightarrow> error + dataframe list" where
  "marcos [] = Inr []"
| "marcos ((p, k, t) # xs) =
     (case marco p k t of
        Inl e \<Rightarrow> Inl e
      | Inr f \<Rightarrow> (case marcos xs of Inl e \<Rightarrow> Inl e | Inr fs \<Rightarrow> Inr (f # fs)))"

definition bien_formado :: "dataframe \<Rightarrow> bool" where
  "bien_formado f = list_all (\<lambda>r. length r = length (columns f)) (rows f)"

definition marcado :: "dataframe \<Rightarrow> int \<Rightarrow> int \<Rightarrow> bool" where
  "marcado f p k = list_all (\<lambda>r. length r = length (columns f) \<and> etiquetada (columns f) p k r) (rows f)"

definition aporte :: "int \<Rightarrow> int \<Rightarrow> int \<times> int \<times> raw_table \<Rightarrow> nat" where
  "aporte P K x = (case x of (p, k, t) \<Rightarrow> if p = P \<and> k = K then length (tl t) else 0)"

definition con_etiquetas :: "label list \<Rightarrow> label list" where
  "con_etiquetas h =
     (let c = (if Some ''pagina'' \<in> set h then h else h @ [Some ''pagina''])
      in if Some ''tabla'' \<in> set c then c else c @ [Some ''tabla''])"

section \<open>The date gate is Monday to Friday\<close>

lemmas fecha_defs = weekday_def toordinal_def days_before_year_def days_before_month_def
  DAYS_BEFORE_MONTH_def is_leap_def

lemma weekday_range: "0 \<le> weekday d \<and> weekday d < 7"
  by (simp add: weekday_def)

text \<open>The week from Monday 18 to Sunday 24 March 2024, day by day.\<close>

lemma semana_de_marzo_2024:
  "map (\<lambda>n. weekday \<lparr>year = 2024, month = 3, day = n\<rparr>) [18, 19, 20, 21, 22, 23, 24] = [0, 1, 2, 3, 4, 5, 6]"
  "map (\<lambda>n. es_dia_habil \<lparr>year = 2024, month = 3, day = n\<rparr>) [18, 19, 20, 21, 22, 23, 24]
     = [True, True, True, True, True, False, False]"
  by (simp_all add: es_dia_habil_def fecha_defs)

text \<open>
  Claim C8. For every date, \<open>es_dia_habil\<close> is true exactly when the weekday index is one of
  0, 1, 2, 3, 4 (Monday to Friday, with 0 for Monday), and false exactly when it is 5 or 6
  (Saturday or Sunday).
\<close>

theorem es_dia_habil_lunes_a_viernes:
  "(es_dia_habil d \<longleftrightarrow> weekday d \<in> {0, 1, 2, 3, 4}) \<and>
   (\<not> es_dia_habil d \<longleftrightarrow> weekday d = 5 \<or> weekday d = 6)"
proof -
  have "0 \<le> weekday d" "weekday d < 7" using weekday_range by auto
  then show ?thesis unfolding es_dia_habil_def by auto
qed

theorem es_dia_habil_lunes_a_viernes_witness:
  "weekday \<lparr>year = 2024, month = 3, day = 15\<rparr> = 4 \<and> es_dia_habil \<lparr>year = 2024, month = 3, day = 15\<rparr> \<and>
   weekday \<lparr>year = 2024, month = 3, day = 16\<rparr> = 5 \<and> \<not> es_dia_habil \<lparr>year = 2024, month = 3, day = 16\<rparr>"
  using es_dia_habil_lunes_a_viernes [of "\<lparr>year = 2024, month = 3, day = 15\<rparr>"]
    es_dia_habil_lunes_a_viernes [of "\<lparr>year = 2024, month = 3, day = 16\<rparr>"]
  by (simp add: fecha_defs)

section \<open>Decimal text of a number\<close>

lemmas texto_defs = py_str_def py_format_0d_def str_nat.simps digit_char_def

lemma str_nat_small: "n < 10 \<Longrightarrow> str_nat n = [digit_char n]"
  by (simp add: str_nat.simps)

lemma str_nat_step: "10 \<le> n \<Longrightarrow> str_nat n = str_nat (n div 10) @ [digit_char (n mod 10)]"
  by (subst str_nat.simps) simp

lemma str_nat_two: "10 \<le> n \<Longrightarrow> n < 100 \<Longrightarrow> str_nat n = [digit_char (n div 10), digit_char (n mod 10)]"
  by (simp add: str_nat_step str_nat_small)

lemma length_str_nat_pos: "0 < length (str_nat n)"
  by (subst str_nat.simps) simp

lemma length_str_nat_ge2: "10 \<le> n \<Longrightarrow> 2 \<le> length (str_nat n)"
  using length_str_nat_pos [of "n div 10"] by (simp add: str_nat_step Suc_le_eq)

lemma format_2_small: "0 \<le> n \<Longrightarrow> n < 100 \<Longrightarrow> py_format_0d 2 n = two_digits n"
proof -
  assume a: "0 \<le> n" "n < 100"
  show ?thesis
  proof (cases "n < 10")
    case True
    with a have "nat n < 10" "n div 10 = 0" "n mod 10 = n" by auto
    then show ?thesis using a by (simp add: py_format_0d_def two_digits_def str_nat_small digit_char_def)
  next
    case False
    with a have b: "10 \<le> nat n" "nat n < 100" by auto
    have t: "n div 10 mod 10 = n div 10" using a by simp
    have "str_nat (nat n) = [digit_char (nat n div 10), digit_char (nat n mod 10)]"
      using b by (rule str_nat_two)
    also have "nat n div 10 = nat (n div 10)" using a by (simp add: nat_div_distrib)
    also have "nat n mod 10 = nat (n mod 10)" using a by (simp add: nat_mod_distrib)
    finally have "str_nat (nat n) = two_digits n" by (simp add: two_digits_def t)
    moreover have "length (two_digits n) = 2" by (simp add: two_digits_def)
    ultimately show ?thesis using a by (simp add: py_format_0d_def)
  qed
qed

lemma format_2_large: "10 \<le> n \<Longrightarrow> py_format_0d 2 n = py_str n"
  using length_str_nat_ge2 [of "nat n"] by (simp add: py_format_0d_def py_str_def)

lemma str_four: "1000 \<le> n \<Longrightarrow> n \<le> 9999 \<Longrightarrow> py_str n = four_digits n"
proof -
  assume a: "1000 \<le> n" "n \<le> 9999"
  define m where "m = nat n"
  have m: "1000 \<le> m" "m \<le> 9999" using a by (auto simp: m_def)
  have n: "n = int m" using a by (simp add: m_def)
  have "str_nat m = [digit_char (m div 1000), digit_char (m div 100 mod 10), digit_char (m div 10 mod 10), digit_char (m mod 10)]"
    using m by (simp add: str_nat_step str_nat_small div_mult2_eq [symmetric] )
  moreover have "m div 1000 = m div 1000 mod 10" using m by simp
  ultimately show ?thesis using a unfolding py_str_def four_digits_def m_def
    by (simp add: nat_div_distrib nat_mod_distrib)
qed

lemma digit_char_nonzero: "0 < k \<Longrightarrow> k < 10 \<Longrightarrow> digit_char k \<noteq> CHR ''0''"
proof -
  assume "0 < k" "k < 10"
  then have "k \<in> {1,2,3,4,5,6,7,8,9}" by auto
  then show ?thesis by (auto simp: digit_char_def)
qed

lemma hd_str_nat: "0 < n \<Longrightarrow> hd (str_nat n) \<noteq> CHR ''0''"
proof (induction n rule: str_nat.induct)
  case (1 n)
  show ?case
  proof (cases "n < 10")
    case True
    then show ?thesis using 1 by (simp add: str_nat_small digit_char_nonzero)
  next
    case False
    then have "0 < n div 10" by simp
    with 1 False have "hd (str_nat (n div 10)) \<noteq> CHR ''0''" by simp
    moreover have "str_nat (n div 10) \<noteq> []" using length_str_nat_pos [of "n div 10"] by auto
    ultimately show ?thesis using False by (simp add: str_nat_step)
  qed
qed

lemma days_in_month_le: "1 \<le> m \<Longrightarrow> m \<le> 12 \<Longrightarrow> days_in_month y m \<le> 31"
proof -
  assume "1 \<le> m" "m \<le> 12"
  then have "m = 1 \<or> m = 2 \<or> m = 3 \<or> m = 4 \<or> m = 5 \<or> m = 6 \<or> m = 7 \<or> m = 8 \<or> m = 9
      \<or> m = 10 \<or> m = 11 \<or> m = 12" by arith
  then show ?thesis by (auto simp: days_in_month_def DAYS_IN_MONTH_def)
qed

lemma month_name: "1 \<le> m \<Longrightarrow> m \<le> 12 \<Longrightarrow> \<exists>mes. map_of SPANISH_MONTHS m = Some mes \<and> mes \<noteq> []"
proof -
  assume "1 \<le> m" "m \<le> 12"
  then have "m = 1 \<or> m = 2 \<or> m = 3 \<or> m = 4 \<or> m = 5 \<or> m = 6 \<or> m = 7 \<or> m = 8 \<or> m = 9
      \<or> m = 10 \<or> m = 11 \<or> m = 12" by arith
  then show ?thesis by (auto simp: SPANISH_MONTHS_def)
qed

lemma valid_date_bounds:
  assumes "valid_date d"
  shows "1 \<le> month d" "month d \<le> 12" "1 \<le> day d" "day d \<le> 31" "1 \<le> year d" "year d \<le> 9999"
  using assms days_in_month_le [of "month d" "year d"] by (auto simp: valid_date_def)

lemma construir_urls_forma:
  assumes "valid_date d"
  shows "\<exists>urls. construir_urls_candidatas d = Inr urls \<and> length urls = 3"
proof -
  note b = valid_date_bounds [OF assms]
  obtain mes where mes: "map_of SPANISH_MONTHS (month d) = Some mes"
    using month_name [OF b(1,2)] by blast
  then show ?thesis by (simp add: construir_urls_candidatas_def Let_def)
qed

section \<open>The three candidate URLs\<close>

text \<open>
  Claim C6, as the specification states it, fails for a year below 1000: the date
  0999-01-01 is a valid date, its candidates carry the year as \<open>999\<close>, and the four-digit
  year \<open>0999\<close> occurs in none of them.
\<close>

theorem urls_ano_de_tres_cifras:
  "valid_date \<lparr>year = 999, month = 1, day = 1\<rparr> \<and>
   construir_urls_candidatas \<lparr>year = 999, month = 1, day = 1\<rparr>
     = Inr [''https://corabastos.com.co/wp-content/uploads/999/01/Boletin-01enero999.pdf'',
            ''https://corabastos.com.co/wp-content/uploads/999/01/Boletin-1enero999.pdf'',
            ''https://corabastos.com.co/wp-content/uploads/999/01/Boletin_diario_9990101.pdf''] \<and>
   four_digits 999 = ''0999'' \<and>
   \<not> sublist (four_digits 999)
        ''https://corabastos.com.co/wp-content/uploads/999/01/Boletin-01enero999.pdf''"
  by (simp add: valid_date_def days_in_month_def DAYS_IN_MONTH_def is_leap_def
      construir_urls_candidatas_def SPANISH_MONTHS_def texto_defs four_digits_def sublist_code)

text \<open>
  Claim C6, amended. For every valid date the result is exactly three non-empty strings.
  All three start with the fixed prefix followed by the year in plain decimal, a slash, the
  month zero-padded to two digits and a slash. The file names are, in order: the day
  zero-padded to two digits, the Spanish month name and the year; the day without padding
  (its first digit is never 0), the month name and the year; and \<open>Boletin_diario_\<close> followed
  by the year, the two-digit month and the two-digit day. The year in plain decimal has
  four digits from the year 1000 on.
\<close>

theorem construir_urls_tres_patrones:
  assumes "valid_date d"
  shows "\<exists>mes base urls.
      map_of SPANISH_MONTHS (month d) = Some mes \<and>
      base = ''https://corabastos.com.co/wp-content/uploads/'' @ py_str (year d) @ ''/''
               @ two_digits (month d) @ ''/'' \<and>
      construir_urls_candidatas d = Inr urls \<and>
      urls = [base @ ''Boletin-'' @ two_digits (day d) @ mes @ py_str (year d) @ ''.pdf'',
              base @ ''Boletin-'' @ py_str (day d) @ mes @ py_str (year d) @ ''.pdf'',
              base @ ''Boletin_diario_'' @ py_str (year d) @ two_digits (month d)
                @ two_digits (day d) @ ''.pdf''] \<and>
      length urls = 3 \<and> [] \<notin> set urls \<and>
      hd (py_str (day d)) \<noteq> CHR ''0'' \<and>
      (1000 \<le> year d \<longrightarrow> py_str (year d) = four_digits (year d))"
proof -
  note b = valid_date_bounds [OF assms]
  obtain mes where mes: "map_of SPANISH_MONTHS (month d) = Some mes"
    using month_name [OF b(1,2)] by blast
  have m2: "py_format_0d 2 (month d) = two_digits (month d)"
    using b by (intro format_2_small) auto
  have d2: "py_format_0d 2 (day d) = two_digits (day d)"
    using b by (intro format_2_small) auto
  have unpadded: "hd (py_str (day d)) \<noteq> CHR ''0''"
    using b hd_str_nat [of "nat (day d)"] by (simp add: py_str_def)
  have four: "1000 \<le> year d \<longrightarrow> py_str (year d) = four_digits (year d)"
    using b str_four by blast
  show ?thesis
    using mes unpadded four by (simp add: construir_urls_candidatas_def m2 d2)
qed

theorem construir_urls_tres_patrones_witness:
  "valid_date \<lparr>year = 2024, month = 3, day = 5\<rparr> \<and>
   construir_urls_candidatas \<lparr>year = 2024, month = 3, day = 5\<rparr>
     = Inr [''https://corabastos.com.co/wp-content/uploads/2024/03/Boletin-05marzo2024.pdf'',
            ''https://corabastos.com.co/wp-content/uploads/2024/03/Boletin-5marzo2024.pdf'',
            ''https://corabastos.com.co/wp-content/uploads/2024/03/Boletin_diario_20240305.pdf''] \<and>
   py_str 2024 = four_digits 2024"
proof -
  have v: "valid_date \<lparr>year = 2024, month = 3, day = 5\<rparr>"
    by (simp add: valid_date_def days_in_month_def DAYS_IN_MONTH_def is_leap_def)
  show ?thesis
    using v construir_urls_tres_patrones [OF v]
    by (simp add: SPANISH_MONTHS_def two_digits_def four_digits_def texto_defs)
qed

text \<open>
  Claim C10. For every valid date whose day of the month is at least 10, the first and the
  second candidate are the same string and the third is another one, so the list holds
  exactly two distinct locations.
\<close>

theorem dia_de_dos_cifras_repite_url:
  assumes "valid_date d" and "10 \<le> day d"
  shows "\<exists>u v. construir_urls_candidatas d = Inr [u, u, v] \<and> u \<noteq> v \<and> card (set [u, u, v]) = 2"
proof -
  note b = valid_date_bounds [OF assms(1)]
  obtain mes where mes: "map_of SPANISH_MONTHS (month d) = Some mes"
    using month_name [OF b(1,2)] by blast
  have same: "py_format_0d 2 (day d) = py_str (day d)"
    using assms(2) by (rule format_2_large)
  show ?thesis
    using mes by (simp add: construir_urls_candidatas_def same Let_def)
qed

theorem dia_de_dos_cifras_repite_url_witness:
  "valid_date \<lparr>year = 2024, month = 3, day = 15\<rparr> \<and> (10::int) \<le> 15 \<and>
   construir_urls_candidatas \<lparr>year = 2024, month = 3, day = 15\<rparr>
     = Inr [''https://corabastos.com.co/wp-content/uploads/2024/03/Boletin-15marzo2024.pdf'',
            ''https://corabastos.com.co/wp-content/uploads/2024/03/Boletin-15marzo2024.pdf'',
            ''https://corabastos.com.co/wp-content/uploads/2024/03/Boletin_diario_20240315.pdf'']"
proof -
  have v: "valid_date \<lparr>year = 2024, month = 3, day = 15\<rparr>"
    by (simp add: valid_date_def days_in_month_def DAYS_IN_MONTH_def is_leap_def)
  have h: "10 \<le> day \<lparr>year = 2024, month = 3, day = 15\<rparr>" by simp
  have e: "construir_urls_candidatas \<lparr>year = 2024, month = 3, day = 15\<rparr>
     = Inr [''https://corabastos.com.co/wp-content/uploads/2024/03/Boletin-15marzo2024.pdf'',
            ''https://corabastos.com.co/wp-content/uploads/2024/03/Boletin-15marzo2024.pdf'',
            ''https://corabastos.com.co/wp-content/uploads/2024/03/Boletin_diario_20240315.pdf'']"
    by (simp add: construir_urls_candidatas_def SPANISH_MONTHS_def texto_defs)
  show ?thesis
    using v e dia_de_dos_cifras_repite_url [OF v h] by simp
qed

section \<open>The locator takes the first accepted candidate\<close>

lemma of_char_lower_char:
  "(of_char (lower_char c) :: nat) =
     (if (65 \<le> (of_char c :: nat) \<and> (of_char c :: nat) \<le> 90) \<or> (192 \<le> (of_char c :: nat) \<and> (of_char c :: nat) \<le> 222 \<and> (of_char c :: nat) \<noteq> 215)
      then of_char c + 32 else of_char c)"
proof -
  have "(of_char c :: nat) < 256" by simp
  then show ?thesis by (auto simp: lower_char_def Let_def)
qed

lemma lower_char_p: "lower_char c = CHR ''p'' \<longleftrightarrow> c = CHR ''p'' \<or> c = CHR ''P''"
proof -
  have "lower_char c = CHR ''p'' \<longleftrightarrow> (of_char (lower_char c) :: nat) = of_char (CHR ''p'')"
    by (simp only: of_char_eq_iff)
  also have "\<dots> \<longleftrightarrow> (of_char c :: nat) = 112 \<or> (of_char c :: nat) = 80"
    by (auto simp: of_char_lower_char)
  also have "\<dots> \<longleftrightarrow> (of_char c :: nat) = of_char (CHR ''p'') \<or> (of_char c :: nat) = of_char (CHR ''P'')"
    by simp
  also have "\<dots> \<longleftrightarrow> c = CHR ''p'' \<or> c = CHR ''P''"
    by (simp only: of_char_eq_iff)
  finally show ?thesis .
qed

lemma lower_char_d: "lower_char c = CHR ''d'' \<longleftrightarrow> c = CHR ''d'' \<or> c = CHR ''D''"
proof -
  have "lower_char c = CHR ''d'' \<longleftrightarrow> (of_char (lower_char c) :: nat) = of_char (CHR ''d'')"
    by (simp only: of_char_eq_iff)
  also have "\<dots> \<longleftrightarrow> (of_char c :: nat) = 100 \<or> (of_char c :: nat) = 68"
    by (auto simp: of_char_lower_char)
  also have "\<dots> \<longleftrightarrow> (of_char c :: nat) = of_char (CHR ''d'') \<or> (of_char c :: nat) = of_char (CHR ''D'')"
    by simp
  also have "\<dots> \<longleftrightarrow> c = CHR ''d'' \<or> c = CHR ''D''"
    by (simp only: of_char_eq_iff)
  finally show ?thesis .
qed

lemma lower_char_f: "lower_char c = CHR ''f'' \<longleftrightarrow> c = CHR ''f'' \<or> c = CHR ''F''"
proof -
  have "lower_char c = CHR ''f'' \<longleftrightarrow> (of_char (lower_char c) :: nat) = of_char (CHR ''f'')"
    by (simp only: of_char_eq_iff)
  also have "\<dots> \<longleftrightarrow> (of_char c :: nat) = 102 \<or> (of_char c :: nat) = 70"
    by (auto simp: of_char_lower_char)
  also have "\<dots> \<longleftrightarrow> (of_char c :: nat) = of_char (CHR ''f'') \<or> (of_char c :: nat) = of_char (CHR ''F'')"
    by simp
  also have "\<dots> \<longleftrightarrow> c = CHR ''f'' \<or> c = CHR ''F''"
    by (simp only: of_char_eq_iff)
  finally show ?thesis .
qed

lemma pdf_in_lower:
  "sublist ''pdf'' (py_lower s) \<longleftrightarrow>
     (\<exists>ps x y z ss. s = ps @ [x, y, z] @ ss \<and> (x = CHR ''p'' \<or> x = CHR ''P'') \<and>
        (y = CHR ''d'' \<or> y = CHR ''D'') \<and> (z = CHR ''f'' \<or> z = CHR ''F''))"
proof
  assume "sublist ''pdf'' (py_lower s)"
  then obtain ps' ss' where "map lower_char s = ps' @ ''pdf'' @ ss'"
    by (auto simp: sublist_def py_lower_def)
  then obtain us x y z zs where s: "s = us @ x # y # z # zs" and l: "CHR ''p'' = lower_char x"
    "CHR ''d'' = lower_char y" "CHR ''f'' = lower_char z"
    by (auto simp: map_eq_append_conv)
  have "x = CHR ''p'' \<or> x = CHR ''P''" "y = CHR ''d'' \<or> y = CHR ''D''"
    "z = CHR ''f'' \<or> z = CHR ''F''"
    using l lower_char_p [of x] lower_char_d [of y] lower_char_f [of z] by auto
  moreover have "s = us @ [x, y, z] @ zs" using s by simp
  ultimately show "\<exists>ps x y z ss. s = ps @ [x, y, z] @ ss \<and> (x = CHR ''p'' \<or> x = CHR ''P'') \<and>
        (y = CHR ''d'' \<or> y = CHR ''D'') \<and> (z = CHR ''f'' \<or> z = CHR ''F'')"
    by blast
next
  assume "\<exists>ps x y z ss. s = ps @ [x, y, z] @ ss \<and> (x = CHR ''p'' \<or> x = CHR ''P'') \<and>
        (y = CHR ''d'' \<or> y = CHR ''D'') \<and> (z = CHR ''f'' \<or> z = CHR ''F'')"
  then obtain ps x y z ss where s: "s = ps @ [x, y, z] @ ss"
    and l: "lower_char x = CHR ''p''" "lower_char y = CHR ''d''" "lower_char z = CHR ''f''"
    by (auto simp: lower_char_p lower_char_d lower_char_f)
  have "py_lower s = map lower_char ps @ ''pdf'' @ map lower_char ss"
    using s l by (simp add: py_lower_def)
  then show "sublist ''pdf'' (py_lower s)" unfolding sublist_def by blast
qed

lemma aceptada_Response:
  "aceptada (Response st h body) \<longleftrightarrow>
     st = 200 \<and> sublist ''pdf'' (py_lower (case h of None \<Rightarrow> [] | Some v \<Rightarrow> v))"
  by (simp add: aceptada_def)

lemma aceptada_Raised: "\<not> aceptada Raised"
  by (simp add: aceptada_def)

lemma aceptada_cuerpo: "aceptada r \<Longrightarrow> cuerpo r \<noteq> None"
  by (cases r) (simp_all add: aceptada_Raised)

lemma probar_urls_respuestas:
  "probar_urls get urls w = (res, tried, w') \<Longrightarrow>
     tried = take (Suc (length (takeWhile (\<lambda>r. \<not> aceptada r) (respuestas get urls w)))) urls \<and>
     res = (case dropWhile (\<lambda>r. \<not> aceptada r) (respuestas get urls w) of
              [] \<Rightarrow> None | r # _ \<Rightarrow> cuerpo r) \<and>
     w' = mundo_tras get tried w"
proof (induction urls arbitrary: w res tried w')
  case Nil
  then show ?case by simp
next
  case (Cons url urls)
  obtain r w1 where g: "get w url = (r, w1)" by (cases "get w url")
  show ?case
  proof (cases "aceptada r")
    case True
    then obtain st h body where r: "r = Response st h body"
      by (cases r) (simp_all add: aceptada_Raised)
    with True Cons.prems g show ?thesis by auto
  next
    case False
    obtain res1 tried1 w2 where p: "probar_urls get urls w1 = (res1, tried1, w2)"
      by (cases "probar_urls get urls w1") auto
    from False Cons.prems g p have e: "res = res1" "tried = url # tried1" "w' = w2"
      by (cases r; simp)+
    from Cons.IH [OF p] show ?thesis using e g False by simp
  qed
qed

lemma length_respuestas [simp]: "length (respuestas get urls w) = length urls"
  by (induction urls arbitrary: w) (auto split: prod.splits)

lemma aceptada_iff:
  "aceptada r \<longleftrightarrow>
     (\<exists>header body ps x y z ss.
        r = Response 200 header body \<and>
        (case header of None \<Rightarrow> [] | Some v \<Rightarrow> v) = ps @ [x, y, z] @ ss \<and>
        (x = CHR ''p'' \<or> x = CHR ''P'') \<and> (y = CHR ''d'' \<or> y = CHR ''D'') \<and>
        (z = CHR ''f'' \<or> z = CHR ''F''))"
  by (cases r) (simp_all add: aceptada_Raised aceptada_Response pdf_in_lower)

text \<open>
  Claim C5, as the specification states it, fails for a success status other than 200: a
  response with status 206 and the content type \<open>application/pdf\<close> has a success status
  and a content type that holds \<open>pdf\<close>, and it is not accepted. When every candidate is
  answered so, all three are asked for and nothing is returned.
\<close>

theorem estado_206_no_se_acepta:
  "estado_de_exito 206 \<and>
   sublist ''pdf'' (py_lower ''application/pdf'') \<and>
   \<not> aceptada (Response 206 (Some ''application/pdf'') ''%PDF-1.7'') \<and>
   descargar_pdf mundo_parcial \<lparr>year = 2024, month = 3, day = 15\<rparr> 0
     = Inr (None,
            [''https://corabastos.com.co/wp-content/uploads/2024/03/Boletin-15marzo2024.pdf'',
             ''https://corabastos.com.co/wp-content/uploads/2024/03/Boletin-15marzo2024.pdf'',
             ''https://corabastos.com.co/wp-content/uploads/2024/03/Boletin_diario_20240315.pdf''],
            3)"
proof -
  have a: "sublist ''pdf'' (py_lower ''application/pdf'')"
    by code_simp
  have b: "\<not> aceptada (Response 206 (Some ''application/pdf'') ''%PDF-1.7'')"
    by (simp add: aceptada_Response)
  have e: "construir_urls_candidatas \<lparr>year = 2024, month = 3, day = 15\<rparr>
     = Inr [''https://corabastos.com.co/wp-content/uploads/2024/03/Boletin-15marzo2024.pdf'',
            ''https://corabastos.com.co/wp-content/uploads/2024/03/Boletin-15marzo2024.pdf'',
            ''https://corabastos.com.co/wp-content/uploads/2024/03/Boletin_diario_20240315.pdf'']"
    by (simp add: construir_urls_candidatas_def SPANISH_MONTHS_def texto_defs)
  have c: "descargar_pdf mundo_parcial \<lparr>year = 2024, month = 3, day = 15\<rparr> 0
     = Inr (None,
            [''https://corabastos.com.co/wp-content/uploads/2024/03/Boletin-15marzo2024.pdf'',
             ''https://corabastos.com.co/wp-content/uploads/2024/03/Boletin-15marzo2024.pdf'',
             ''https://corabastos.com.co/wp-content/uploads/2024/03/Boletin_diario_20240315.pdf''],
            3)"
    by (simp add: descargar_pdf_def e mundo_parcial_def b)
  show ?thesis
    using a b c by (simp add: estado_de_exito_def)
qed

text \<open>
  Claim C5, amended. For every valid date the locator has three candidates and asks for them
  in list order. Writing \<open>rs\<close> for the answers the fetch gives along the way, the URLs asked
  for are the candidates up to and including the first one whose answer is accepted, or all
  of them when none is; the result is the body of that first accepted answer, or nothing
  when none is accepted, and the world is left as it was after the last call made, so no
  later candidate is fetched. A rejected answer or a fetch that raises only moves the loop
  on. When only the third answer is accepted, all three candidates were asked for, in
  order, and its body is returned. An answer is accepted exactly when it is a response with
  status 200, no other status, whose content type holds the letters p, d, f next to each
  other, each in either case.
\<close>

theorem descargar_pdf_primera_aceptada:
  fixes get :: "'w \<Rightarrow> string \<Rightarrow> 'b fetch_result \<times> 'w"
  assumes "valid_date d"
  shows "\<exists>urls res tried w' rs.
      construir_urls_candidatas d = Inr urls \<and> length urls = 3 \<and>
      descargar_pdf get d w = Inr (res, tried, w') \<and>
      rs = respuestas get urls w \<and>
      tried = take (Suc (length (takeWhile (\<lambda>r. \<not> aceptada r) rs))) urls \<and>
      res = (case dropWhile (\<lambda>r. \<not> aceptada r) rs of [] \<Rightarrow> None | r # _ \<Rightarrow> cuerpo r) \<and>
      w' = mundo_tras get tried w \<and>
      (res = None \<longleftrightarrow> list_all (\<lambda>r. \<not> aceptada r) rs) \<and>
      (list_all (\<lambda>r. \<not> aceptada r) rs \<longrightarrow> tried = urls) \<and>
      (\<not> aceptada (rs ! 0) \<and> \<not> aceptada (rs ! 1) \<and> aceptada (rs ! 2) \<longrightarrow>
         tried = urls \<and> res = cuerpo (rs ! 2) \<and> res \<noteq> None) \<and>
      (\<forall>r :: 'b fetch_result. aceptada r \<longleftrightarrow>
         (\<exists>header body ps x y z ss.
            r = Response 200 header body \<and>
            (case header of None \<Rightarrow> [] | Some v \<Rightarrow> v) = ps @ [x, y, z] @ ss \<and>
            (x = CHR ''p'' \<or> x = CHR ''P'') \<and> (y = CHR ''d'' \<or> y = CHR ''D'') \<and>
            (z = CHR ''f'' \<or> z = CHR ''F'')))"
proof -
  obtain mes base urls where u: "construir_urls_candidatas d = Inr urls" "length urls = 3"
    using construir_urls_forma [OF assms] by blast
  obtain res tried w' where p: "probar_urls get urls w = (res, tried, w')"
    by (cases "probar_urls get urls w") auto
  define rs where "rs = respuestas get urls w"
  note q = probar_urls_respuestas [OF p, folded rs_def]
  have len: "length rs = 3" using u by (simp add: rs_def)
  then obtain r0 r1 r2 where rs: "rs = [r0, r1, r2]"
    by (auto simp: length_Suc_conv numeral_3_eq_3)
  obtain u0 u1 u2 where us: "urls = [u0, u1, u2]"
    using u(2) by (auto simp: length_Suc_conv numeral_3_eq_3)
  have a: "res = None \<longleftrightarrow> list_all (\<lambda>r. \<not> aceptada r) rs"
    using q aceptada_cuerpo [of r0] aceptada_cuerpo [of r1] aceptada_cuerpo [of r2]
    by (auto simp: rs)
  have b: "list_all (\<lambda>r. \<not> aceptada r) rs \<longrightarrow> tried = urls"
    using q by (auto simp: rs us)
  have c: "\<not> aceptada (rs ! 0) \<and> \<not> aceptada (rs ! 1) \<and> aceptada (rs ! 2) \<longrightarrow>
         tried = urls \<and> res = cuerpo (rs ! 2) \<and> res \<noteq> None"
    using q aceptada_cuerpo [of r2] by (auto simp: rs us)
  have d: "\<forall>r :: 'b fetch_result. aceptada r \<longleftrightarrow>
         (\<exists>header body ps x y z ss.
            r = Response 200 header body \<and>
            (case header of None \<Rightarrow> [] | Some v \<Rightarrow> v) = ps @ [x, y, z] @ ss \<and>
            (x = CHR ''p'' \<or> x = CHR ''P'') \<and> (y = CHR ''d'' \<or> y = CHR ''D'') \<and>
            (z = CHR ''f'' \<or> z = CHR ''F''))"
    by (intro allI) (rule aceptada_iff)
  have e: "descargar_pdf get d w = Inr (res, tried, w')"
    by (simp add: descargar_pdf_def u p)
  from q have q1: "tried = take (Suc (length (takeWhile (\<lambda>r. \<not> aceptada r) rs))) urls"
    and q2: "res = (case dropWhile (\<lambda>r. \<not> aceptada r) rs of [] \<Rightarrow> None | r # _ \<Rightarrow> cuerpo r)"
    and q3: "w' = mundo_tras get tried w"
    by blast+
  show ?thesis
    apply (rule exI [of _ urls], rule exI [of _ res], rule exI [of _ tried])
    apply (rule exI [of _ w'], rule exI [of _ rs])
    apply (intro conjI)
    apply (rule u(1), rule u(2), rule e, rule rs_def, rule q1, rule q2, rule q3)
    apply (rule a, rule b, rule c, rule d)
    done
qed

theorem descargar_pdf_primera_aceptada_witness:
  "valid_date \<lparr>year = 2024, month = 3, day = 15\<rparr> \<and>
   descargar_pdf mundo_ejemplo \<lparr>year = 2024, month = 3, day = 15\<rparr> 0
     = Inr (Some ''%PDF-1.7'',
            [''https://corabastos.com.co/wp-content/uploads/2024/03/Boletin-15marzo2024.pdf'',
             ''https://corabastos.com.co/wp-content/uploads/2024/03/Boletin-15marzo2024.pdf'',
             ''https://corabastos.com.co/wp-content/uploads/2024/03/Boletin_diario_20240315.pdf''],
            3)"
proof -
  have v: "valid_date \<lparr>year = 2024, month = 3, day = 15\<rparr>"
    by (simp add: valid_date_def days_in_month_def DAYS_IN_MONTH_def is_leap_def)
  have e: "construir_urls_candidatas \<lparr>year = 2024, month = 3, day = 15\<rparr>
     = Inr [''https://corabastos.com.co/wp-content/uploads/2024/03/Boletin-15marzo2024.pdf'',
            ''https://corabastos.com.co/wp-content/uploads/2024/03/Boletin-15marzo2024.pdf'',
            ''https://corabastos.com.co/wp-content/uploads/2024/03/Boletin_diario_20240315.pdf'']"
    by (simp add: construir_urls_candidatas_def SPANISH_MONTHS_def texto_defs)
  have a: "\<not> aceptada (Response 200 (Some ''text/html'') ''<html>'')"
    "aceptada (Response 200 (Some ''Application/PDF'') ''%PDF-1.7'')"
    by code_simp+
  from descargar_pdf_primera_aceptada [OF v, of mundo_ejemplo 0]
  obtain urls res tried w' rs where
    h: "construir_urls_candidatas \<lparr>year = 2024, month = 3, day = 15\<rparr> = Inr urls"
      "descargar_pdf mundo_ejemplo \<lparr>year = 2024, month = 3, day = 15\<rparr> 0 = Inr (res, tried, w')"
      "rs = respuestas mundo_ejemplo urls 0"
      "tried = take (Suc (length (takeWhile (\<lambda>r. \<not> aceptada r) rs))) urls"
      "res = (case dropWhile (\<lambda>r. \<not> aceptada r) rs of [] \<Rightarrow> None | r # _ \<Rightarrow> cuerpo r)"
      "w' = mundo_tras mundo_ejemplo tried 0"
    by (elim exE conjE) (rule that)
  have rs: "rs = [Raised, Response 200 (Some ''text/html'') ''<html>'',
                  Response 200 (Some ''Application/PDF'') ''%PDF-1.7'']"
    using h(1,3) unfolding e by (auto simp: mundo_ejemplo_def)
  have urls: "urls = [''https://corabastos.com.co/wp-content/uploads/2024/03/Boletin-15marzo2024.pdf'',
            ''https://corabastos.com.co/wp-content/uploads/2024/03/Boletin-15marzo2024.pdf'',
            ''https://corabastos.com.co/wp-content/uploads/2024/03/Boletin_diario_20240315.pdf'']"
    using h(1) unfolding e by simp
  have "tried = urls" "res = Some ''%PDF-1.7''"
    using h(4,5) by (simp_all add: rs a aceptada_Raised urls)
  moreover from this have "w' = 3"
    using h(6) by (simp add: urls mundo_ejemplo_def)
  ultimately show ?thesis
    using v h(2) by (simp add: urls)
qed

section \<open>Cells\<close>

lemma vacio_a_na_simps [simp]:
  "vacio_a_na (VInt n) = VInt n" "vacio_a_na VNone = VNone" "vacio_a_na VNaN = VNaN"
  "vacio_a_na VNA = VNA" "vacio_a_na (VStr s) = (if s = [] then VNA else VStr s)"
  by (simp_all add: vacio_a_na_def)

lemma isna_simps [simp]:
  "\<not> isna (VInt n)" "\<not> isna (VStr s)" "isna VNone" "isna VNaN" "isna VNA"
  by (simp_all add: isna_def)

lemmas frame_defs = extraer_tablas_pdf_def DataFrame_def setitem_def pd_concat_def
  replace_empty_def dropna_all_def of_text_def unique_labels_def reindex_def

section \<open>The two-page scenario\<close>

text \<open>
  Claim C1. Page 1 has one table with the header \<open>Producto, Precio\<close> and two data rows,
  whatever their four cells are, and page 2 has no table. The extraction returns the four
  columns \<open>Producto, Precio, pagina, tabla\<close> and two rows, both with \<open>pagina = 1\<close> and
  \<open>tabla = 1\<close>; adding the date 2024-03-15 to that gives five columns, \<open>Fecha\<close> first, with
  the text \<open>2024-03-15\<close> in both rows.
\<close>

theorem escenario_dos_paginas:
  "extraer_tablas_pdf [[[[Some ''Producto'', Some ''Precio''], [a, b], [c, d]]], []]
     = Inr \<lparr>columns = [Some ''Producto'', Some ''Precio'', Some ''pagina'', Some ''tabla''],
            rows = [[vacio_a_na (of_text a), vacio_a_na (of_text b), VInt 1, VInt 1],
                    [vacio_a_na (of_text c), vacio_a_na (of_text d), VInt 1, VInt 1]]\<rparr> \<and>
   agregar_fecha
       \<lparr>columns = [Some ''Producto'', Some ''Precio'', Some ''pagina'', Some ''tabla''],
        rows = [[vacio_a_na (of_text a), vacio_a_na (of_text b), VInt 1, VInt 1],
                [vacio_a_na (of_text c), vacio_a_na (of_text d), VInt 1, VInt 1]]\<rparr>
       \<lparr>year = 2024, month = 3, day = 15\<rparr>
     = Inr \<lparr>columns = [Some ''Fecha'', Some ''Producto'', Some ''Precio'', Some ''pagina'',
                       Some ''tabla''],
            rows = [[VStr ''2024-03-15'', vacio_a_na (of_text a), vacio_a_na (of_text b),
                       VInt 1, VInt 1],
                    [VStr ''2024-03-15'', vacio_a_na (of_text c), vacio_a_na (of_text d),
                       VInt 1, VInt 1]]\<rparr>"
  by (simp add: extraer_tablas_pdf_def DataFrame_def setitem_def pd_concat_def
      replace_empty_def dropna_all_def agregar_fecha_def insert0_def isoformat_def texto_defs)

section \<open>A row of empty cells\<close>

text \<open>
  Claim C2. A table with the header \<open>Producto, Precio\<close>, a data row of two empty strings and
  an ordinary data row: the empty row is still in the result, now as two missing cells
  next to its page and table numbers, and adding the date keeps it.
\<close>

theorem fila_vacia_se_conserva:
  "extraer_tablas_pdf
       [[[[Some ''Producto'', Some ''Precio''], [Some '''', Some ''''],
          [Some ''Papa'', Some ''1200'']]]]
     = Inr \<lparr>columns = [Some ''Producto'', Some ''Precio'', Some ''pagina'', Some ''tabla''],
            rows = [[VNA, VNA, VInt 1, VInt 1],
                    [VStr ''Papa'', VStr ''1200'', VInt 1, VInt 1]]\<rparr> \<and>
   agregar_fecha
       \<lparr>columns = [Some ''Producto'', Some ''Precio'', Some ''pagina'', Some ''tabla''],
        rows = [[VNA, VNA, VInt 1, VInt 1], [VStr ''Papa'', VStr ''1200'', VInt 1, VInt 1]]\<rparr>
       \<lparr>year = 2024, month = 3, day = 15\<rparr>
     = Inr \<lparr>columns = [Some ''Fecha'', Some ''Producto'', Some ''Precio'', Some ''pagina'',
                       Some ''tabla''],
            rows = [[VStr ''2024-03-15'', VNA, VNA, VInt 1, VInt 1],
                    [VStr ''2024-03-15'', VStr ''Papa'', VStr ''1200'', VInt 1, VInt 1]]\<rparr>"
  by (simp add: frame_defs agregar_fecha_def insert0_def isoformat_def texto_defs)

section \<open>Headers are written once\<close>

text \<open>
  Claim C7. When the store has no row at all, \<open>inicializar_encabezados_si_vacio\<close> makes one
  write, a single row that is the column names of the data set, and the store then holds
  that row only. When the store has at least one row, whatever it is, nothing is written
  and the store is unchanged. A write happens exactly when the store was empty.
\<close>

theorem encabezados_solo_si_vacio:
  "(grid ws = [] \<longrightarrow>
      inicializar_encabezados_si_vacio ws df
        = \<lparr>grid = [map of_text (columns df)],
           calls = calls ws @ [AppendRow (map of_text (columns df))]\<rparr>) \<and>
   (grid ws \<noteq> [] \<longrightarrow> inicializar_encabezados_si_vacio ws df = ws) \<and>
   (calls (inicializar_encabezados_si_vacio ws df) \<noteq> calls ws \<longleftrightarrow> grid ws = [])"
  by (simp add: inicializar_encabezados_si_vacio_def get_all_values_def append_row_def)

theorem encabezados_solo_si_vacio_witness:
  "inicializar_encabezados_si_vacio \<lparr>grid = [], calls = []\<rparr>
       \<lparr>columns = [Some ''Fecha'', Some ''Producto''], rows = []\<rparr>
     = \<lparr>grid = [[VStr ''Fecha'', VStr ''Producto'']],
        calls = [AppendRow [VStr ''Fecha'', VStr ''Producto'']]\<rparr> \<and>
   inicializar_encabezados_si_vacio \<lparr>grid = [[VStr ''Otra'']], calls = []\<rparr>
       \<lparr>columns = [Some ''Fecha'', Some ''Producto''], rows = []\<rparr>
     = \<lparr>grid = [[VStr ''Otra'']], calls = []\<rparr>"
  using encabezados_solo_si_vacio
      [of "\<lparr>grid = [], calls = []\<rparr>" "\<lparr>columns = [Some ''Fecha'', Some ''Producto''], rows = []\<rparr>"]
    encabezados_solo_si_vacio
      [of "\<lparr>grid = [[VStr ''Otra'']], calls = []\<rparr>"
          "\<lparr>columns = [Some ''Fecha'', Some ''Producto''], rows = []\<rparr>"]
  by (simp add: of_text_def)

section \<open>The loops build one frame per usable table\<close>

lemma marcos_append:
  "marcos (xs @ ys) =
     (case marcos xs of
        Inl e \<Rightarrow> Inl e
      | Inr fs \<Rightarrow> (case marcos ys of Inl e \<Rightarrow> Inl e | Inr gs \<Rightarrow> Inr (fs @ gs)))"
  by (induction xs rule: marcos.induct) (auto split: sum.splits)

lemma tablas_de_pagina_marcos:
  "tablas_de_pagina p k ts acc =
     (case marcos (utiles_pagina p k ts) of Inl e \<Rightarrow> Inl e | Inr fs \<Rightarrow> Inr (acc @ fs))"
proof (induction ts arbitrary: k acc)
  case Nil
  then show ?case by simp
next
  case (Cons t ts)
  have e: "(t = [] \<or> length t < 2) = (length t < 2)" by auto
  show ?case
    by (simp add: e Cons.IH marco_def split: sum.splits)
qed

lemma paginas_marcos:
  "paginas p pgs acc =
     (case marcos (utiles p pgs) of Inl e \<Rightarrow> Inl e | Inr fs \<Rightarrow> Inr (acc @ fs))"
  by (induction pgs arbitrary: p acc)
     (auto simp: tablas_de_pagina_marcos marcos_append split: sum.splits)

lemma extraer_marcos:
  "extraer_tablas_pdf pdf =
     (case marcos (utiles 1 pdf) of
        Inl e \<Rightarrow> Inl e
      | Inr fs \<Rightarrow>
          if fs = [] then Inl NoTablesFound
          else (case pd_concat fs of
                  Inl e \<Rightarrow> Inl e
                | Inr df_total \<Rightarrow> Inr (dropna_all (replace_empty df_total))))"
  by (simp add: extraer_tablas_pdf_def paginas_marcos split: sum.splits)

lemma marcos_Inr:
  "marcos xs = Inr fs \<Longrightarrow> list_all2 (\<lambda>f (p, k, t). marco p k t = Inr f) fs xs"
  by (induction xs arbitrary: fs rule: marcos.induct) (auto split: sum.splits)

lemma marco_Inl: "marco p k t = Inl e \<Longrightarrow> e = ShapeMismatch"
  by (auto simp: marco_def DataFrame_def Let_def split: sum.splits if_splits)

lemma marcos_Inl: "marcos xs = Inl e \<Longrightarrow> e = ShapeMismatch"
  by (induction xs rule: marcos.induct) (auto split: sum.splits dest: marco_Inl)

lemma marcos_Nil_iff: "marcos xs = Inr [] \<longleftrightarrow> xs = []"
  by (cases xs) (auto split: sum.splits)

lemma pd_concat_Inl: "pd_concat fs = Inl e \<Longrightarrow> fs \<noteq> [] \<Longrightarrow> e = InvalidIndexError"
  by (auto simp: pd_concat_def Let_def split: list.splits if_splits)

section \<open>Every frame carries its page and table number\<close>

lemma set_celdas:
  "set (celdas cols key r) = {r ! i | i. i < length cols \<and> i < length r \<and> cols ! i = key}"
  by (auto simp: celdas_def set_zip image_iff)

lemma set_celdas_cong:
  assumes "length r' = length r"
    and "\<And>j. j < length cols \<Longrightarrow> j < length r \<Longrightarrow> cols ! j = key \<Longrightarrow> r' ! j = r ! j"
  shows "set (celdas cols key r') = set (celdas cols key r)"
  unfolding set_celdas using assms by (intro Collect_cong) (metis (no_types, lifting))

lemma set_celdas_const:
  assumes "i < length cols" "i < length r'" "cols ! i = key"
    and "\<And>j. j < length cols \<Longrightarrow> j < length r' \<Longrightarrow> cols ! j = key \<Longrightarrow> r' ! j = v"
  shows "set (celdas cols key r') = {v}"
proof (intro equalityI subsetI)
  fix x assume "x \<in> set (celdas cols key r')"
  then show "x \<in> {v}" unfolding set_celdas using assms(4) by auto
next
  fix x assume "x \<in> {v}"
  then have "x = r' ! i" using assms by simp
  then show "x \<in> set (celdas cols key r')" unfolding set_celdas using assms(1-3) by blast
qed

lemma celdas_map: "celdas cols key (map g r) = map g (celdas cols key r)"
proof -
  have "zip cols (map g r) = map (\<lambda>(c, x). (c, g x)) (zip cols r)"
    by (simp add: zip_map2)
  then show ?thesis
    by (simp add: celdas_def filter_map comp_def case_prod_unfold)
qed

lemma celdas_subset: "set (celdas cols key r) \<subseteq> set r"
  by (auto simp: set_celdas)

lemma fold_max_ge: "x \<in> set xs \<Longrightarrow> x \<le> fold max xs (a::nat)"
proof -
  assume "x \<in> set xs"
  then have "x \<le> Max (set (a # xs))" by (intro Max_ge) auto
  then show ?thesis by (simp only: Max.set_eq_fold)
qed

lemma DataFrame_bien_formado: "DataFrame rs header = Inr df \<Longrightarrow> bien_formado df"
  by (auto simp: DataFrame_def Let_def bien_formado_def list_all_iff fold_max_ge
      split: if_splits)

lemma DataFrame_shape:
  "DataFrame rs header = Inr df \<Longrightarrow> columns df = header \<and> length (rows df) = length rs"
  by (auto simp: DataFrame_def Let_def split: if_splits)

lemma setitem_length_rows [simp]: "length (rows (setitem df key v)) = length (rows df)"
  by (simp add: setitem_def)

lemma setitem_columns:
  "columns (setitem df key v) = (if key \<in> set (columns df) then columns df else columns df @ [key])"
  by (simp add: setitem_def)

lemma setitem_bien_formado: "bien_formado df \<Longrightarrow> bien_formado (setitem df key v)"
  by (auto simp: setitem_def bien_formado_def list_all_iff)

lemma setitem_rows_cases:
  assumes "bien_formado df" and "r' \<in> set (rows (setitem df key v))"
  obtains r where "key \<in> set (columns df)" "r \<in> set (rows df)"
      "length r = length (columns df)" "length r' = length (columns df)"
      "\<And>j. j < length (columns df) \<Longrightarrow> r' ! j = (if columns df ! j = key then v else r ! j)"
  | r where "key \<notin> set (columns df)" "r \<in> set (rows df)" "length r = length (columns df)"
      "r' = r @ [v]"
proof (cases "key \<in> set (columns df)")
  case True
  from assms True obtain r where r: "r \<in> set (rows df)"
    "r' = map (\<lambda>(c, x). if c = key then v else x) (zip (columns df) r)"
    by (auto simp: setitem_def)
  have len: "length r = length (columns df)"
    using assms(1) r(1) by (auto simp: bien_formado_def list_all_iff)
  have "length r' = length (columns df)"
    "\<And>j. j < length (columns df) \<Longrightarrow> r' ! j = (if columns df ! j = key then v else r ! j)"
    by (simp_all add: r(2) len)
  with True r(1) len show ?thesis by (rule that(1))
next
  case False
  from assms False obtain r where r: "r \<in> set (rows df)" "r' = r @ [v]"
    by (auto simp: setitem_def)
  have len: "length r = length (columns df)"
    using assms(1) r(1) by (auto simp: bien_formado_def list_all_iff)
  from False r(1) len r(2) show ?thesis by (rule that(2))
qed

lemma setitem_key:
  assumes "bien_formado df" and "r' \<in> set (rows (setitem df key v))"
  shows "set (celdas (columns (setitem df key v)) key r') = {v}"
  using assms
proof (cases rule: setitem_rows_cases)
  case (1 r)
  from 1(1) obtain i where i: "i < length (columns df)" "columns df ! i = key"
    by (auto simp: in_set_conv_nth)
  have "set (celdas (columns df) key r') = {v}"
    using i 1(4,5) by (intro set_celdas_const [of i]) auto
  then show ?thesis using 1(1) by (simp add: setitem_columns)
next
  case (2 r)
  have "set (celdas (columns df @ [key]) key (r @ [v])) = {v}"
  proof (rule set_celdas_const [of "length (columns df)"])
    fix j assume "j < length (columns df @ [key])" "j < length (r @ [v])" "(columns df @ [key]) ! j = key"
    then have "j = length (columns df)"
      using 2(1) by (auto simp: nth_append in_set_conv_nth less_Suc_eq split: if_splits)
    then have "j = length r" using 2(3) by simp
    then show "(r @ [v]) ! j = v" by simp
  qed (simp_all add: 2(3))
  then show ?thesis using 2(1,4) by (simp add: setitem_columns)
qed

lemma setitem_other:
  assumes "bien_formado df" and "r' \<in> set (rows (setitem df key v))" and "key' \<noteq> key"
  shows "\<exists>r \<in> set (rows df).
           set (celdas (columns (setitem df key v)) key' r') = set (celdas (columns df) key' r)"
  using assms(1,2)
proof (cases rule: setitem_rows_cases)
  case (1 r)
  have "set (celdas (columns df) key' r') = set (celdas (columns df) key' r)"
    using 1(3,4,5) assms(3) by (intro set_celdas_cong) auto
  then show ?thesis using 1(1,2) by (auto simp: setitem_columns)
next
  case (2 r)
  have "celdas (columns df @ [key]) key' (r @ [v]) = celdas (columns df) key' r"
    using 2(3) assms(3) by (simp add: celdas_def)
  then show ?thesis using 2(1,2,4) by (auto simp: setitem_columns)
qed

lemma marco_marcado:
  assumes "marco p k t = Inr f"
  shows "marcado f p k" and "length (rows f) = length (tl t)"
proof -
  from assms obtain df where df: "DataFrame (tl t) (hd t) = Inr df"
    and f: "f = setitem (setitem df (Some ''pagina'') (VInt p)) (Some ''tabla'') (VInt k)"
    by (auto simp: marco_def split: sum.splits)
  define g where "g = setitem df (Some ''pagina'') (VInt p)"
  have wf0: "bien_formado df" using df by (rule DataFrame_bien_formado)
  have wf1: "bien_formado g" unfolding g_def using wf0 by (rule setitem_bien_formado)
  have wf2: "bien_formado f" unfolding f g_def [symmetric] using wf1 by (rule setitem_bien_formado)
  have tag: "etiquetada (columns f) p k r'" if r': "r' \<in> set (rows f)" for r'
  proof -
    have t: "set (celdas (columns f) (Some ''tabla'') r') = {VInt k}"
      using setitem_key [OF wf1, of r' "Some ''tabla''" "VInt k"] r' by (simp add: f g_def)
    obtain r where r: "r \<in> set (rows g)"
      "set (celdas (columns f) (Some ''pagina'') r') = set (celdas (columns g) (Some ''pagina'') r)"
      using setitem_other [OF wf1, of r' "Some ''tabla''" "VInt k" "Some ''pagina''"] r'
      by (auto simp: f g_def)
    have "set (celdas (columns g) (Some ''pagina'') r) = {VInt p}"
      using setitem_key [OF wf0, of r "Some ''pagina''" "VInt p"] r(1) by (simp add: g_def)
    with r(2) t show ?thesis by (simp add: etiquetada_def)
  qed
  show "marcado f p k"
    using wf2 tag by (auto simp: marcado_def bien_formado_def list_all_iff)
  show "length (rows f) = length (tl t)"
    using DataFrame_shape [OF df] by (simp add: f)
qed

section \<open>Stacking the frames keeps the numbers\<close>

lemma set_fold_unique:
  "set (fold (\<lambda>x acc. if x \<in> set acc then acc else acc @ [x]) xs a) = set a \<union> set xs"
  by (induction xs arbitrary: a) auto

lemma set_unique_labels [simp]: "set (unique_labels xs) = set xs"
  by (simp add: unique_labels_def set_fold_unique)

lemma index_of_Some:
  "x \<in> set xs \<Longrightarrow> \<exists>i. index_of x xs = Some i \<and> i < length xs \<and> xs ! i = x"
  by (induction xs) auto

lemma index_of_first:
  "index_of x xs = Some n \<Longrightarrow> n < length xs \<and> xs ! n = x \<and> (\<forall>m<n. xs ! m \<noteq> x)"
proof (induction xs arbitrary: n)
  case Nil
  then show ?case by simp
next
  case (Cons a xs)
  show ?case
  proof (cases "x = a")
    case True
    with Cons.prems show ?thesis by simp
  next
    case False
    with Cons.prems obtain n' where n': "index_of x xs = Some n'" "n = Suc n'"
      by auto
    from Cons.IH [OF n'(1)] have ih: "n' < length xs" "xs ! n' = x" "\<forall>m<n'. xs ! m \<noteq> x"
      by simp_all
    have "(a # xs) ! m \<noteq> x" if "m < n" for m
    proof (cases m)
      case 0
      then show ?thesis using False by simp
    next
      case (Suc m')
      then show ?thesis using ih(3) that n'(2) by simp
    qed
    then show ?thesis using ih n'(2) by simp
  qed
qed

lemma reindex_celdas:
  assumes "set (celdas old key r) = {v}" and "key \<in> set new"
  shows "set (celdas new key (reindex new old r)) = {v}"
proof -
  from assms(1) have "v \<in> set (celdas old key r)" by simp
  then obtain i where i: "i < length old" "i < length r" "old ! i = key"
    unfolding set_celdas by auto
  then have "key \<in> set old" by (auto simp: in_set_conv_nth)
  then obtain i0 where i0: "index_of key old = Some i0"
    using index_of_Some [of key old] by auto
  note f = index_of_first [OF i0]
  have "\<not> i < i0" using f i(3) by blast
  then have "i0 < length r" using i(2) by simp
  then have "r ! i0 \<in> set (celdas old key r)"
    unfolding set_celdas using f by blast
  then have v: "r ! i0 = v" using assms(1) by simp
  from assms(2) obtain j where j: "j < length new" "new ! j = key"
    by (auto simp: in_set_conv_nth)
  show ?thesis
  proof (rule set_celdas_const [of j])
    fix n assume "n < length new" "n < length (reindex new old r)" "new ! n = key"
    then show "reindex new old r ! n = v" by (simp add: reindex_def i0 v)
  qed (use j in \<open>simp_all add: reindex_def\<close>)
qed

lemma reindex_etiquetada:
  assumes "etiquetada old p k r"
    and "set old \<subseteq> set new"
  shows "etiquetada new p k (reindex new old r)"
proof -
  have a: "set (celdas old (Some ''pagina'') r) = {VInt p}"
    "set (celdas old (Some ''tabla'') r) = {VInt k}"
    using assms(1) by (simp_all add: etiquetada_def)
  have "Some ''pagina'' \<in> set old" "Some ''tabla'' \<in> set old"
    using a unfolding set_celdas by (auto simp: in_set_conv_nth)
  then have "Some ''pagina'' \<in> set new" "Some ''tabla'' \<in> set new"
    using assms(2) by auto
  then show ?thesis
    using a by (simp add: etiquetada_def reindex_celdas)
qed

lemma pd_concat_same:
  "list_all (\<lambda>df. columns df = columns f0) rest \<Longrightarrow> pd_concat (f0 # rest) = Inr u \<Longrightarrow>
     u = \<lparr>columns = columns f0, rows = concat (map rows (f0 # rest))\<rparr>"
  by (simp add: pd_concat_def)

lemma pd_concat_realign:
  assumes "\<not> list_all (\<lambda>df. columns df = columns f0) rest" and "pd_concat (f0 # rest) = Inr u"
  shows "u = \<lparr>columns = unique_labels (concat (map columns (f0 # rest))),
          rows = concat (map (\<lambda>df. if columns df = unique_labels (concat (map columns (f0 # rest)))
                                     then rows df
                                     else map (reindex (unique_labels (concat (map columns (f0 # rest))))
                                                 (columns df)) (rows df))
                           (f0 # rest))\<rparr>"
    (is "u = ?X")
proof -
  have "pd_concat (f0 # rest) =
          (if list_ex (\<lambda>df. columns df \<noteq> unique_labels (concat (map columns (f0 # rest))) \<and>
                             \<not> distinct (columns df)) (f0 # rest)
           then Inl InvalidIndexError else Inr ?X)"
    unfolding pd_concat_def Let_def list.case if_not_P [OF assms(1)] ..
  with assms(2) have "Inr ?X = (Inr u :: error + dataframe)"
    by (metis sum.distinct(1))
  then show ?thesis by (simp only: sum.inject)
qed

lemma length_reindex [simp]: "length (reindex new old r) = length new"
  by (simp add: reindex_def)

lemma pd_concat_rows:
  assumes "pd_concat fs = Inr u"
  shows "\<exists>B :: dataframe \<Rightarrow> cell list list. rows u = concat (map B fs) \<and>
           (\<forall>f\<in>set fs. length (B f) = length (rows f) \<and>
              (\<forall>p k. marcado f p k \<longrightarrow>
                 (\<forall>r\<in>set (B f). length r = length (columns u) \<and> etiquetada (columns u) p k r)))"
proof -
  from assms obtain f0 rest where fs: "fs = f0 # rest"
    by (cases fs) (auto simp: pd_concat_def)
  show ?thesis
  proof (cases "list_all (\<lambda>df. columns df = columns f0) rest")
    case True
    have u: "u = \<lparr>columns = columns f0, rows = concat (map rows fs)\<rparr>"
      using pd_concat_same [OF True] assms unfolding fs by blast
    have same: "\<And>f. f \<in> set fs \<Longrightarrow> columns f = columns f0"
      using True by (auto simp: fs list_all_iff)
    have a: "rows u = concat (map rows fs)" by (simp add: u)
    have b: "\<forall>f\<in>set fs. length (rows f) = length (rows f) \<and>
              (\<forall>p k. marcado f p k \<longrightarrow>
                 (\<forall>r\<in>set (rows f). length r = length (columns u) \<and> etiquetada (columns u) p k r))"
      using same by (simp add: u marcado_def list_all_iff)
    show ?thesis
      by (rule exI [of _ rows], rule conjI, rule a, rule b)
  next
    case False
    define new where "new = unique_labels (concat (map columns fs))"
    define B :: "dataframe \<Rightarrow> cell list list" where "B = (\<lambda>df. if columns df = new then rows df
                               else map (reindex new (columns df)) (rows df))"
    have u: "u = \<lparr>columns = new, rows = concat (map B fs)\<rparr>"
      using pd_concat_realign [OF False] assms unfolding fs new_def B_def by blast
    have sub: "\<And>f. f \<in> set fs \<Longrightarrow> set (columns f) \<subseteq> set new"
      by (auto simp: new_def)
    have c: "length r = length (columns u) \<and> etiquetada (columns u) p k r"
      if f: "f \<in> set fs" and m: "marcado f p k" and r: "r \<in> set (B f)" for f p k r
    proof (cases "columns f = new")
      case True
      then show ?thesis using m r by (auto simp: B_def u marcado_def list_all_iff)
    next
      case False
      then obtain r0 where r0: "r0 \<in> set (rows f)" "r = reindex new (columns f) r0"
        using r by (auto simp: B_def)
      have "etiquetada (columns f) p k r0"
        using m r0(1) by (auto simp: marcado_def list_all_iff)
      then have "etiquetada new p k r"
        unfolding r0(2) using sub [OF f] by (rule reindex_etiquetada)
      then show ?thesis by (simp add: u r0(2))
    qed
    have a: "rows u = concat (map B fs)" by (simp add: u)
    have b: "\<forall>f\<in>set fs. length (B f) = length (rows f) \<and>
              (\<forall>p k. marcado f p k \<longrightarrow>
                 (\<forall>r\<in>set (B f). length r = length (columns u) \<and> etiquetada (columns u) p k r))"
      using c by (simp add: B_def)
    show ?thesis
      by (rule exI [of _ B], rule conjI, rule a, rule b)
  qed
qed

lemma celdas_vacio_a_na:
  "set (celdas cols key r) = {VInt n} \<Longrightarrow> set (celdas cols key (map vacio_a_na r)) = {VInt n}"
  by (simp add: celdas_map)

lemma etiquetada_replace: "etiquetada cols p k r \<Longrightarrow> etiquetada cols p k (map vacio_a_na r)"
  by (simp add: etiquetada_def celdas_vacio_a_na)

lemma etiquetada_not_all_na: "etiquetada cols p k r \<Longrightarrow> \<not> list_all isna r"
proof -
  assume "etiquetada cols p k r"
  then have "VInt p \<in> set (celdas cols (Some ''pagina'') r)" by (simp add: etiquetada_def)
  then have "VInt p \<in> set r" using celdas_subset by blast
  moreover have "\<not> isna (VInt p)" by simp
  ultimately show ?thesis unfolding list_all_iff by blast
qed

lemma etiquetada_unique:
  "etiquetada cols p k r \<Longrightarrow> etiquetada cols p' k' r \<Longrightarrow> p' = p \<and> k' = k"
  by (auto simp: etiquetada_def)

lemma extraer_Inr:
  assumes "extraer_tablas_pdf pdf = Inr df"
  obtains fs u where "marcos (utiles 1 pdf) = Inr fs" "fs \<noteq> []" "pd_concat fs = Inr u"
    "df = dropna_all (replace_empty u)" "paginas 1 pdf [] = Inr fs"
proof -
  from assms obtain fs where fs: "marcos (utiles 1 pdf) = Inr fs"
    by (auto simp: extraer_marcos split: sum.splits)
  with assms have ne: "fs \<noteq> []" by (auto simp: extraer_marcos)
  with assms fs obtain u where u: "pd_concat fs = Inr u" "df = dropna_all (replace_empty u)"
    by (auto simp: extraer_marcos split: sum.splits)
  have "paginas 1 pdf [] = Inr fs" by (simp add: paginas_marcos fs)
  with fs ne u show ?thesis by (rule that)
qed

lemma marcos_marcado:
  assumes "marcos xs = Inr fs"
  shows "list_all2 (\<lambda>f (p, k, t). marcado f p k \<and> length (rows f) = length (tl t)) fs xs"
proof -
  have "list_all2 (\<lambda>f (p, k, t). marco p k t = Inr f) fs xs"
    using assms by (rule marcos_Inr)
  then show ?thesis
    by (rule list_all2_mono) (auto dest: marco_marcado)
qed

lemma utiles_pagina_tags:
  "(p', k', t') \<in> set (utiles_pagina p k ts) \<Longrightarrow> p' = p \<and> k < k'"
  by (induction ts arbitrary: k) (fastforce split: if_splits)+

lemma utiles_tags: "(p', k', t') \<in> set (utiles p pgs) \<Longrightarrow> p \<le> p'"
  by (induction pgs arbitrary: p) (fastforce dest: utiles_pagina_tags)+

lemma aporte_zero:
  "\<forall>x\<in>set xs. fst x \<noteq> P \<or> fst (snd x) \<noteq> K \<Longrightarrow> sum_list (map (aporte P K) xs) = 0"
  by (induction xs) (auto simp: aporte_def split: prod.splits)

lemma aporte_zero_pagina:
  "p \<noteq> P \<or> K \<le> k \<Longrightarrow> sum_list (map (aporte P K) (utiles_pagina p k ts)) = 0"
  by (rule aporte_zero) (use utiles_pagina_tags in fastforce)

lemma aporte_zero_utiles:
  "P < p \<Longrightarrow> sum_list (map (aporte P K) (utiles p pgs)) = 0"
  by (rule aporte_zero) (use utiles_tags in fastforce)

lemma aporte_utiles_pagina:
  "sum_list (map (aporte p (k0 + 1 + int j)) (utiles_pagina p k0 ts)) =
     (if j < length ts \<and> 2 \<le> length (ts ! j) then length (tl (ts ! j)) else 0)"
proof (induction ts arbitrary: k0 j)
  case Nil
  then show ?case by simp
next
  case (Cons t ts)
  show ?case
  proof (cases j)
    case 0
    have z: "sum_list (map (aporte p (k0 + 1)) (utiles_pagina p (k0 + 1) ts)) = 0"
      by (rule aporte_zero_pagina) simp
    have h: "aporte p (k0 + 1) (p, k0 + 1, t) = length (tl t)" by (simp add: aporte_def)
    show ?thesis using 0 by (simp add: z h)
  next
    case (Suc j')
    define K where "K = k0 + 1 + 1 + int j'"
    have e: "k0 + 1 + int j = K" using Suc by (simp add: K_def)
    have ih: "sum_list (map (aporte p K) (utiles_pagina p (k0 + 1) ts)) =
                (if j' < length ts \<and> 2 \<le> length (ts ! j') then length (tl (ts ! j')) else 0)"
      unfolding K_def by (rule Cons.IH)
    have h: "aporte p K (p, k0 + 1, t) = 0" by (simp add: aporte_def K_def)
    have "sum_list (map (aporte p K) (utiles_pagina p k0 (t # ts))) =
            sum_list (map (aporte p K) (utiles_pagina p (k0 + 1) ts))"
      by (simp add: h)
    also note ih
    finally show ?thesis unfolding e using Suc by simp
  qed
qed

lemma aporte_utiles:
  "sum_list (map (aporte (p0 + int i) K) (utiles p0 pgs)) =
     (if i < length pgs
      then sum_list (map (aporte (p0 + int i) K) (utiles_pagina (p0 + int i) 0 (pgs ! i)))
      else 0)"
proof (induction pgs arbitrary: p0 i)
  case Nil
  then show ?case by simp
next
  case (Cons pg pgs)
  show ?case
  proof (cases i)
    case 0
    have z: "sum_list (map (aporte p0 K) (utiles (p0 + 1) pgs)) = 0"
      by (rule aporte_zero_utiles) simp
    show ?thesis using 0 by (simp add: z)
  next
    case (Suc i')
    define Q where "Q = (p0 + 1) + int i'"
    have e: "p0 + int i = Q" using Suc by (simp add: Q_def)
    have z: "sum_list (map (aporte Q K) (utiles_pagina p0 0 pg)) = 0"
      by (rule aporte_zero_pagina) (simp add: Q_def)
    have ih: "sum_list (map (aporte Q K) (utiles (p0 + 1) pgs)) =
                (if i' < length pgs
                 then sum_list (map (aporte Q K) (utiles_pagina Q 0 (pgs ! i'))) else 0)"
      unfolding Q_def by (rule Cons.IH)
    have "sum_list (map (aporte Q K) (utiles p0 (pg # pgs))) =
            sum_list (map (aporte Q K) (utiles (p0 + 1) pgs))"
      by (simp add: z)
    also note ih
    finally show ?thesis unfolding e using Suc by simp
  qed
qed

lemma aporte_documento:
  assumes "i < length pdf" and "j < length (pdf ! i)"
  shows "sum_list (map (aporte (int i + 1) (int j + 1)) (utiles 1 pdf)) =
           (if 2 \<le> length (pdf ! i ! j) then length (tl (pdf ! i ! j)) else 0)"
proof -
  have "sum_list (map (aporte (1 + int i) (0 + 1 + int j)) (utiles 1 pdf)) =
          sum_list (map (aporte (1 + int i) (0 + 1 + int j)) (utiles_pagina (1 + int i) 0 (pdf ! i)))"
    using assms(1) by (simp add: aporte_utiles)
  also have "\<dots> = (if 2 \<le> length (pdf ! i ! j) then length (tl (pdf ! i ! j)) else 0)"
    using assms(2) by (simp only: aporte_utiles_pagina) simp
  finally show ?thesis by (simp add: add.commute)
qed

lemma cuenta_bloques:
  fixes B :: "dataframe \<Rightarrow> cell list list"
  assumes "list_all2 (\<lambda>f (p, k, t). marcado f p k \<and> length (rows f) = length (tl t)) fs xs"
    and "\<And>f p k. f \<in> set fs \<Longrightarrow> marcado f p k \<Longrightarrow> list_all (etiquetada cols p k) (B f)"
    and "\<And>f. f \<in> set fs \<Longrightarrow> length (B f) = length (rows f)"
  shows "length (filter (etiquetada cols P K) (concat (map B fs))) = sum_list (map (aporte P K) xs)"
  using assms
proof (induction fs xs rule: list_all2_induct)
  case Nil
  then show ?case by simp
next
  case (Cons f fs x xs)
  obtain p k t where x: "x = (p, k, t)" by (cases x)
  have m: "marcado f p k" "length (rows f) = length (tl t)" using Cons.hyps(1) x by auto
  have all: "list_all (etiquetada cols p k) (B f)" using Cons.prems(1) [of f p k] m by simp
  have len: "length (B f) = length (tl t)" using Cons.prems(2) [of f] m by simp
  have "length (filter (etiquetada cols P K) (B f)) = aporte P K x"
  proof (cases "p = P \<and> k = K")
    case True
    then have "filter (etiquetada cols P K) (B f) = B f"
      using all by (auto simp: list_all_iff)
    then show ?thesis using True len by (simp add: aporte_def x)
  next
    case False
    have "filter (etiquetada cols P K) (B f) = []"
      using all False by (auto simp: list_all_iff filter_empty_conv dest: etiquetada_unique)
    then show ?thesis using False by (auto simp: aporte_def x)
  qed
  moreover have "length (filter (etiquetada cols P K) (concat (map B fs))) = sum_list (map (aporte P K) xs)"
    using Cons.prems by (intro Cons.IH) auto
  ultimately show ?case by simp
qed

lemma list_all2_set1:
  "list_all2 R fs xs \<Longrightarrow> f \<in> set fs \<Longrightarrow> \<exists>x\<in>set xs. R f x"
  by (induction rule: list_all2_induct) auto

lemma extraer_estructura:
  assumes "extraer_tablas_pdf pdf = Inr df"
  obtains fs u and B :: "dataframe \<Rightarrow> cell list list" where
    "paginas 1 pdf [] = Inr fs" "pd_concat fs = Inr u"
    "list_all2 (\<lambda>f (p, k, t). marcado f p k \<and> length (rows f) = length (tl t)) fs (utiles 1 pdf)"
    "columns (replace_empty u) = columns u"
    "rows (replace_empty u) = concat (map B fs)"
    "\<And>f p k. f \<in> set fs \<Longrightarrow> marcado f p k \<Longrightarrow> list_all (etiquetada (columns u) p k) (B f)"
    "\<And>f. f \<in> set fs \<Longrightarrow> length (B f) = length (rows f)"
    "dropna_all (replace_empty u) = replace_empty u" "df = replace_empty u"
proof -
  from assms obtain fs u where fs: "marcos (utiles 1 pdf) = Inr fs" "fs \<noteq> []"
    "pd_concat fs = Inr u" "df = dropna_all (replace_empty u)" "paginas 1 pdf [] = Inr fs"
    by (rule extraer_Inr)
  note tags = marcos_marcado [OF fs(1)]
  from pd_concat_rows [OF fs(3)] obtain B0 :: "dataframe \<Rightarrow> cell list list" where
    B0: "rows u = concat (map B0 fs)"
      "\<And>f. f \<in> set fs \<Longrightarrow> length (B0 f) = length (rows f)"
      "\<And>f p k r. f \<in> set fs \<Longrightarrow> marcado f p k \<Longrightarrow> r \<in> set (B0 f) \<Longrightarrow>
         etiquetada (columns u) p k r"
    by blast
  define B where "B = (\<lambda>f. map (map vacio_a_na) (B0 f))"
  have cols: "columns (replace_empty u) = columns u" by (simp add: replace_empty_def)
  have rws: "rows (replace_empty u) = concat (map B fs)"
    by (simp add: replace_empty_def B0(1) B_def map_concat comp_def)
  have et: "list_all (etiquetada (columns u) p k) (B f)" if "f \<in> set fs" "marcado f p k" for f p k
    using B0(3) [OF that] by (auto simp: B_def list_all_iff etiquetada_replace)
  have len: "length (B f) = length (rows f)" if "f \<in> set fs" for f
    using B0(2) [OF that] by (simp add: B_def)
  have "\<not> list_all isna r" if r: "r \<in> set (rows (replace_empty u))" for r
  proof -
    from r obtain f where f: "f \<in> set fs" "r \<in> set (B f)" by (auto simp: rws)
    from list_all2_set1 [OF tags f(1)] obtain p k where "marcado f p k" by auto
    from et [OF f(1) this] f(2) have "etiquetada (columns u) p k r" by (auto simp: list_all_iff)
    then show ?thesis by (rule etiquetada_not_all_na)
  qed
  then have drop: "dropna_all (replace_empty u) = replace_empty u"
    by (simp add: dropna_all_def)
  show ?thesis
    using fs(5) fs(3) tags cols rws et len drop fs(4) [unfolded drop] by (rule that)
qed

lemma utiles_pagina_tablas:
  "map (\<lambda>x. snd (snd x)) (utiles_pagina p k ts) = filter (\<lambda>t. 2 \<le> length t) ts"
  by (induction ts arbitrary: k) auto

lemma utiles_tablas: "map (\<lambda>x. snd (snd x)) (utiles p pdf) = tablas_utiles pdf"
  by (induction pdf arbitrary: p) (auto simp: tablas_utiles_def utiles_pagina_tablas)

lemma utiles_Nil_iff: "utiles p pdf = [] \<longleftrightarrow> tablas_utiles pdf = []"
  using utiles_tablas [of p pdf] by (metis map_is_Nil_conv)

lemma extraer_NoTablesFound_iff:
  "extraer_tablas_pdf pdf = Inl NoTablesFound \<longleftrightarrow> tablas_utiles pdf = []"
proof
  assume a: "extraer_tablas_pdf pdf = Inl NoTablesFound"
  show "tablas_utiles pdf = []"
  proof (cases "marcos (utiles 1 pdf)")
    case (Inl e)
    then have "e = ShapeMismatch" by (rule marcos_Inl)
    with a Inl show ?thesis by (simp add: extraer_marcos)
  next
    case (Inr fs)
    show ?thesis
    proof (cases "fs = []")
      case True
      with Inr have "utiles 1 pdf = []" by (simp add: marcos_Nil_iff)
      then show ?thesis by (simp add: utiles_Nil_iff)
    next
      case False
      show ?thesis
      proof (cases "pd_concat fs")
        case (Inl e)
        then have "e = InvalidIndexError" using False by (rule pd_concat_Inl)
        with a Inr False Inl show ?thesis by (simp add: extraer_marcos)
      next
        case (Inr u)
        with a \<open>marcos (utiles 1 pdf) = Inr fs\<close> False show ?thesis
          by (simp add: extraer_marcos)
      qed
    qed
  qed
next
  assume "tablas_utiles pdf = []"
  then have "utiles 1 pdf = []" by (simp add: utiles_Nil_iff)
  then show "extraer_tablas_pdf pdf = Inl NoTablesFound" by (simp add: extraer_marcos)
qed

lemma fold_max_const:
  assumes "xs \<noteq> []" and "\<forall>x\<in>set xs. x = n"
  shows "fold max xs (0::nat) = n"
proof -
  have "set xs = {n}" using assms by (cases xs) auto
  then have "Max (set (0 # xs)) = n" by simp
  then show ?thesis by (simp only: Max.set_eq_fold)
qed

lemma marco_columns: "marco p k t = Inr f \<Longrightarrow> columns f = con_etiquetas (hd t)"
  by (auto simp: marco_def con_etiquetas_def setitem_columns Let_def
      dest!: DataFrame_shape split: sum.splits)

lemma marco_rectangular:
  assumes "rectangular t" and "2 \<le> length t"
  shows "\<exists>f. marco p k t = Inr f"
proof -
  from assms(2) obtain h r rs where t: "t = h # r # rs"
    by (cases t; cases "tl t") auto
  have "fold max (map length (tl t)) 0 = length h"
  proof (rule fold_max_const)
    show "map length (tl t) \<noteq> []" by (simp add: t)
    show "\<forall>x\<in>set (map length (tl t)). x = length h"
      using assms(1) by (auto simp: rectangular_def list_all_iff t)
  qed
  then have "DataFrame (tl t) (hd t) =
      Inr \<lparr>columns = hd t,
           rows = map (\<lambda>r. map of_text r @ replicate (length h - length r) VNone) (tl t)\<rparr>"
    unfolding DataFrame_def Let_def by (simp add: t)
  then show ?thesis by (simp add: marco_def)
qed

lemma marcos_rectangular:
  "\<forall>x\<in>set xs. rectangular (snd (snd x)) \<and> 2 \<le> length (snd (snd x)) \<Longrightarrow>
     \<exists>fs. marcos xs = Inr fs \<and> map columns fs = map (\<lambda>x. con_etiquetas (hd (snd (snd x)))) xs"
proof (induction xs rule: marcos.induct)
  case 1
  then show ?case by simp
next
  case (2 p k t xs)
  from 2(2) obtain f where f: "marco p k t = Inr f"
    using marco_rectangular [of t p k] by auto
  from 2(1) [OF f] 2(2) obtain fs where fs: "marcos xs = Inr fs"
    "map columns fs = map (\<lambda>x. con_etiquetas (hd (snd (snd x)))) xs"
    by auto
  show ?case using f fs by (simp add: marco_columns)
qed

lemma distinct_con_etiquetas: "distinct h \<Longrightarrow> distinct (con_etiquetas h)"
  by (auto simp: con_etiquetas_def Let_def)

lemma pd_concat_ok:
  assumes "fs \<noteq> []"
    and "(\<forall>f\<in>set fs. columns f = columns (hd fs)) \<or> (\<forall>f\<in>set fs. distinct (columns f))"
  shows "\<exists>u. pd_concat fs = Inr u"
proof -
  from assms(1) obtain f0 rest where fs: "fs = f0 # rest" by (cases fs) auto
  show ?thesis
  proof (cases "list_all (\<lambda>df. columns df = columns f0) rest")
    case True
    then show ?thesis by (simp add: pd_concat_def fs)
  next
    case False
    then have "\<not> (\<forall>f\<in>set fs. columns f = columns (hd fs))"
      by (auto simp: fs list_all_iff)
    with assms(2) have "\<forall>f\<in>set fs. distinct (columns f)" by blast
    then have "\<not> list_ex (\<lambda>df. columns df \<noteq> unique_labels (concat (map columns fs)) \<and>
                                \<not> distinct (columns df)) fs"
      by (auto simp: list_ex_iff)
    then show ?thesis
      using False unfolding pd_concat_def Let_def fs list.case by (simp only: if_False simp_thms)
        blast
  qed
qed

section \<open>Page and table numbers are never missing\<close>

text \<open>
  Claim C9. Whenever the extraction returns a data set, every row of it carries an integer
  page number and an integer table number in the \<open>pagina\<close> and \<open>tabla\<close> columns, so no row
  is missing in all its cells; and the step that drops rows missing in all cells removed
  nothing: the result is the stacked frames after the empty texts were replaced, unchanged
  by the drop.
\<close>

theorem toda_fila_lleva_pagina_y_tabla:
  assumes "extraer_tablas_pdf pdf = Inr df"
  shows "(\<forall>r\<in>set (rows df). \<exists>p k. etiquetada (columns df) p k r) \<and>
         (\<forall>r\<in>set (rows df). \<not> list_all isna r) \<and>
         (\<exists>all_tables df_total.
            paginas 1 pdf [] = Inr all_tables \<and> pd_concat all_tables = Inr df_total \<and>
            dropna_all (replace_empty df_total) = replace_empty df_total \<and>
            df = replace_empty df_total)"
proof -
  obtain fs u and B :: "dataframe \<Rightarrow> cell list list" where
    s: "paginas 1 pdf [] = Inr fs" "pd_concat fs = Inr u"
    "list_all2 (\<lambda>f (p, k, t). marcado f p k \<and> length (rows f) = length (tl t)) fs (utiles 1 pdf)"
    "columns (replace_empty u) = columns u"
    "rows (replace_empty u) = concat (map B fs)"
    "\<And>f p k. f \<in> set fs \<Longrightarrow> marcado f p k \<Longrightarrow> list_all (etiquetada (columns u) p k) (B f)"
    "\<And>f. f \<in> set fs \<Longrightarrow> length (B f) = length (rows f)"
    "dropna_all (replace_empty u) = replace_empty u" "df = replace_empty u"
    by (rule extraer_estructura [OF assms(1)]) (rule that; assumption)
  have tag: "\<exists>p k. etiquetada (columns df) p k r" if r: "r \<in> set (rows df)" for r
  proof -
    from r obtain f where f: "f \<in> set fs" "r \<in> set (B f)" by (auto simp: s(9) s(5))
    from list_all2_set1 [OF s(3) f(1)] obtain p k where "marcado f p k" by auto
    from s(6) [OF f(1) this] f(2) have "etiquetada (columns u) p k r" by (auto simp: list_all_iff)
    then show ?thesis unfolding s(9) s(4) by blast
  qed
  have a: "\<forall>r\<in>set (rows df). \<exists>p k. etiquetada (columns df) p k r" using tag by blast
  have b: "\<forall>r\<in>set (rows df). \<not> list_all isna r"
    using tag etiquetada_not_all_na by blast
  have c: "\<exists>all_tables df_total.
            paginas 1 pdf [] = Inr all_tables \<and> pd_concat all_tables = Inr df_total \<and>
            dropna_all (replace_empty df_total) = replace_empty df_total \<and>
            df = replace_empty df_total"
    using s(1,2,8,9) by blast
  show ?thesis by (rule conjI, rule a, rule conjI, rule b, rule c)
qed

theorem toda_fila_lleva_pagina_y_tabla_witness:
  "extraer_tablas_pdf [[[[Some ''Producto'', Some ''Precio''], [Some '''', Some '''']]]]
     = Inr \<lparr>columns = [Some ''Producto'', Some ''Precio'', Some ''pagina'', Some ''tabla''],
            rows = [[VNA, VNA, VInt 1, VInt 1]]\<rparr> \<and>
   (\<exists>p k. etiquetada [Some ''Producto'', Some ''Precio'', Some ''pagina'', Some ''tabla''] p k
             [VNA, VNA, VInt 1, VInt 1]) \<and>
   \<not> list_all isna [VNA, VNA, VInt 1, VInt 1]"
proof -
  have e: "extraer_tablas_pdf [[[[Some ''Producto'', Some ''Precio''], [Some '''', Some '''']]]]
     = Inr \<lparr>columns = [Some ''Producto'', Some ''Precio'', Some ''pagina'', Some ''tabla''],
            rows = [[VNA, VNA, VInt 1, VInt 1]]\<rparr>"
    by (simp add: frame_defs)
  show ?thesis
    using e toda_fila_lleva_pagina_y_tabla [OF e] by simp
qed

section \<open>What each table contributes\<close>

text \<open>
  Claim C3, as the specification states it, fails: a page with two tables of two rows each,
  the first with a header in which the empty name repeats and the second with other column
  names. Stacking their frames raises, the extraction returns no data set, and so neither
  table contributes a row.
\<close>

theorem tabla_de_dos_filas_sin_aporte:
  "length [[Some ''Producto'', None, None], [Some ''Papa'', Some ''kg'', Some ''1200'']] = 2 \<and>
   length [[Some ''Producto'', Some ''Precio''], [Some ''Yuca'', Some ''900'']] = 2 \<and>
   extraer_tablas_pdf
     [[[[Some ''Producto'', None, None], [Some ''Papa'', Some ''kg'', Some ''1200'']],
       [[Some ''Producto'', Some ''Precio''], [Some ''Yuca'', Some ''900'']]]]
     = Inl InvalidIndexError"
  by code_simp

text \<open>
  Claim C3, amended. Whenever the extraction returns a data set, the rows of it that carry
  the page and table number of a given detected table are as many as that table's data rows
  when the table has at least two rows, and none otherwise. So, whenever the extraction
  succeeds, a table of one row or of none contributes no row, and a table of exactly two
  rows contributes exactly one.
\<close>

theorem aporte_de_cada_tabla:
  assumes "extraer_tablas_pdf pdf = Inr df" and "i < length pdf" and "j < length (pdf ! i)"
  shows "length (filter (etiquetada (columns df) (int i + 1) (int j + 1)) (rows df))
           = (if length (pdf ! i ! j) < 2 then 0 else length (pdf ! i ! j) - 1) \<and>
         (length (pdf ! i ! j) \<le> 1 \<longrightarrow>
            filter (etiquetada (columns df) (int i + 1) (int j + 1)) (rows df) = []) \<and>
         (length (pdf ! i ! j) = 2 \<longrightarrow>
            length (filter (etiquetada (columns df) (int i + 1) (int j + 1)) (rows df)) = 1)"
proof -
  obtain fs u and B :: "dataframe \<Rightarrow> cell list list" where
    s: "paginas 1 pdf [] = Inr fs" "pd_concat fs = Inr u"
    "list_all2 (\<lambda>f (p, k, t). marcado f p k \<and> length (rows f) = length (tl t)) fs (utiles 1 pdf)"
    "columns (replace_empty u) = columns u"
    "rows (replace_empty u) = concat (map B fs)"
    "\<And>f p k. f \<in> set fs \<Longrightarrow> marcado f p k \<Longrightarrow> list_all (etiquetada (columns u) p k) (B f)"
    "\<And>f. f \<in> set fs \<Longrightarrow> length (B f) = length (rows f)"
    "dropna_all (replace_empty u) = replace_empty u" "df = replace_empty u"
    by (rule extraer_estructura [OF assms(1)]) (rule that; assumption)
  have "length (filter (etiquetada (columns u) (int i + 1) (int j + 1)) (concat (map B fs)))
          = sum_list (map (aporte (int i + 1) (int j + 1)) (utiles 1 pdf))"
    using s(3) s(6) s(7) by (rule cuenta_bloques)
  also have "\<dots> = (if 2 \<le> length (pdf ! i ! j) then length (tl (pdf ! i ! j)) else 0)"
    using assms(2,3) by (rule aporte_documento)
  finally have n: "length (filter (etiquetada (columns df) (int i + 1) (int j + 1)) (rows df))
           = (if length (pdf ! i ! j) < 2 then 0 else length (pdf ! i ! j) - 1)"
    by (simp add: s(9) s(4) s(5) not_less)
  then show ?thesis by auto
qed

theorem aporte_de_cada_tabla_witness:
  "extraer_tablas_pdf
       [[[[Some ''Precios'']], [[Some ''Producto'', Some ''Precio''], [Some ''Papa'', Some ''1200'']]]]
     = Inr \<lparr>columns = [Some ''Producto'', Some ''Precio'', Some ''pagina'', Some ''tabla''],
            rows = [[VStr ''Papa'', VStr ''1200'', VInt 1, VInt 2]]\<rparr> \<and>
   filter (etiquetada [Some ''Producto'', Some ''Precio'', Some ''pagina'', Some ''tabla''] 1 1)
       [[VStr ''Papa'', VStr ''1200'', VInt 1, VInt 2]] = [] \<and>
   length (filter (etiquetada [Some ''Producto'', Some ''Precio'', Some ''pagina'', Some ''tabla''] 1 2)
       [[VStr ''Papa'', VStr ''1200'', VInt 1, VInt 2]]) = 1"
proof -
  have e: "extraer_tablas_pdf
       [[[[Some ''Precios'']], [[Some ''Producto'', Some ''Precio''], [Some ''Papa'', Some ''1200'']]]]
     = Inr \<lparr>columns = [Some ''Producto'', Some ''Precio'', Some ''pagina'', Some ''tabla''],
            rows = [[VStr ''Papa'', VStr ''1200'', VInt 1, VInt 2]]\<rparr>"
    by (simp add: frame_defs)
  show ?thesis
    using e aporte_de_cada_tabla [OF e, of 0 0] aporte_de_cada_tabla [OF e, of 0 1] by simp
qed

section \<open>No usable table\<close>

text \<open>
  Claim C4, as the specification states it, fails: a document with two usable tables, the
  first with a column name that repeats and the second with other column names, makes the
  stacking of the frames raise, so the extraction fails although usable tables exist.
\<close>

theorem encabezados_repetidos_fallan:
  "tablas_utiles
     [[[[Some ''Producto'', Some ''Precio'', Some ''Precio''],
        [Some ''Papa'', Some ''1200'', Some ''1300'']]],
      [[[Some ''Producto'', Some ''Precio''], [Some ''Yuca'', Some ''900'']]]]
     = [[[Some ''Producto'', Some ''Precio'', Some ''Precio''],
         [Some ''Papa'', Some ''1200'', Some ''1300'']],
        [[Some ''Producto'', Some ''Precio''], [Some ''Yuca'', Some ''900'']]] \<and>
   extraer_tablas_pdf
     [[[[Some ''Producto'', Some ''Precio'', Some ''Precio''],
        [Some ''Papa'', Some ''1200'', Some ''1300'']]],
      [[[Some ''Producto'', Some ''Precio''], [Some ''Yuca'', Some ''900'']]]]
     = Inl InvalidIndexError"
  by code_simp

text \<open>
  Claim C4, amended. The extraction fails with \<open>NoTablesFound\<close> exactly when the document
  has no usable table, one of at least two rows, on any page. When it has one, and every
  usable table is rectangular, and the usable tables either all have the same header or
  all have headers in which no name repeats, the extraction returns a data set.
\<close>

theorem sin_tablas_utiles:
  "(extraer_tablas_pdf pdf = Inl NoTablesFound \<longleftrightarrow> tablas_utiles pdf = []) \<and>
   (tablas_utiles pdf \<noteq> [] \<and> list_all rectangular (tablas_utiles pdf) \<and>
    (list_all (\<lambda>t. hd t = hd (hd (tablas_utiles pdf))) (tablas_utiles pdf) \<or>
     list_all (\<lambda>t. distinct (hd t)) (tablas_utiles pdf))
    \<longrightarrow> (\<exists>df. extraer_tablas_pdf pdf = Inr df))"
proof (rule conjI)
  show "extraer_tablas_pdf pdf = Inl NoTablesFound \<longleftrightarrow> tablas_utiles pdf = []"
    by (rule extraer_NoTablesFound_iff)
next
  show "tablas_utiles pdf \<noteq> [] \<and> list_all rectangular (tablas_utiles pdf) \<and>
    (list_all (\<lambda>t. hd t = hd (hd (tablas_utiles pdf))) (tablas_utiles pdf) \<or>
     list_all (\<lambda>t. distinct (hd t)) (tablas_utiles pdf))
    \<longrightarrow> (\<exists>df. extraer_tablas_pdf pdf = Inr df)"
  proof
    assume h: "tablas_utiles pdf \<noteq> [] \<and> list_all rectangular (tablas_utiles pdf) \<and>
      (list_all (\<lambda>t. hd t = hd (hd (tablas_utiles pdf))) (tablas_utiles pdf) \<or>
       list_all (\<lambda>t. distinct (hd t)) (tablas_utiles pdf))"
    define xs where "xs = utiles 1 pdf"
    have ts: "map (\<lambda>x. snd (snd x)) xs = tablas_utiles pdf" by (simp add: xs_def utiles_tablas)
    have set_ts: "\<And>x. x \<in> set xs \<Longrightarrow> snd (snd x) \<in> set (tablas_utiles pdf)"
      using ts by (metis image_eqI set_map)
    have "\<forall>x\<in>set xs. rectangular (snd (snd x)) \<and> 2 \<le> length (snd (snd x))"
    proof
      fix x assume "x \<in> set xs"
      then have m: "snd (snd x) \<in> set (tablas_utiles pdf)" by (rule set_ts)
      then have "rectangular (snd (snd x))" using h by (auto simp: list_all_iff)
      moreover have "2 \<le> length (snd (snd x))" using m by (auto simp: tablas_utiles_def)
      ultimately show "rectangular (snd (snd x)) \<and> 2 \<le> length (snd (snd x))" by blast
    qed
    then obtain fs where fs: "marcos xs = Inr fs"
      "map columns fs = map (\<lambda>x. con_etiquetas (hd (snd (snd x)))) xs"
      using marcos_rectangular by blast
    have cols: "map columns fs = map (\<lambda>t. con_etiquetas (hd t)) (tablas_utiles pdf)"
      using fs(2) ts by (metis (no_types, lifting) map_map comp_def map_eq_conv)
    have ne: "fs \<noteq> []" using cols h by auto
    have "(\<forall>f\<in>set fs. columns f = columns (hd fs)) \<or> (\<forall>f\<in>set fs. distinct (columns f))"
    proof -
      from h consider (same) "list_all (\<lambda>t. hd t = hd (hd (tablas_utiles pdf))) (tablas_utiles pdf)"
        | (dist) "list_all (\<lambda>t. distinct (hd t)) (tablas_utiles pdf)" by blast
      then show ?thesis
      proof cases
        case same
        then have "\<forall>c\<in>set (map columns fs). c = con_etiquetas (hd (hd (tablas_utiles pdf)))"
          unfolding cols by (auto simp: list_all_iff)
        then have "\<forall>f\<in>set fs. columns f = con_etiquetas (hd (hd (tablas_utiles pdf)))" by simp
        moreover from this ne have "columns (hd fs) = con_etiquetas (hd (hd (tablas_utiles pdf)))"
          by (cases fs) auto
        ultimately show ?thesis by simp
      next
        case dist
        then have "\<forall>c\<in>set (map columns fs). distinct c"
          unfolding cols by (auto simp: list_all_iff distinct_con_etiquetas)
        then show ?thesis by simp
      qed
    qed
    with ne obtain u where u: "pd_concat fs = Inr u" using pd_concat_ok by blast
    show "\<exists>df. extraer_tablas_pdf pdf = Inr df"
      using fs(1) ne u by (simp add: extraer_marcos xs_def [symmetric])
  qed
qed

theorem sin_tablas_utiles_witness:
  "tablas_utiles [[[[Some ''Precios'']]], []] = [] \<and>
   extraer_tablas_pdf [[[[Some ''Precios'']]], []] = Inl NoTablesFound \<and>
   tablas_utiles
     [[[[Some ''Producto'', Some ''Precio''], [Some ''Papa'', Some ''1200'']]],
      [[[Some ''Producto'', Some ''Unidad''], [Some ''Yuca'', Some ''kg'']]]] \<noteq> [] \<and>
   (\<exists>df. extraer_tablas_pdf
     [[[[Some ''Producto'', Some ''Precio''], [Some ''Papa'', Some ''1200'']]],
      [[[Some ''Producto'', Some ''Unidad''], [Some ''Yuca'', Some ''kg'']]]] = Inr df)"
proof -
  have a: "tablas_utiles [[[[Some ''Precios'']]], []] = []"
    by (simp add: tablas_utiles_def)
  have b: "tablas_utiles
     [[[[Some ''Producto'', Some ''Precio''], [Some ''Papa'', Some ''1200'']]],
      [[[Some ''Producto'', Some ''Unidad''], [Some ''Yuca'', Some ''kg'']]]]
     = [[[Some ''Producto'', Some ''Precio''], [Some ''Papa'', Some ''1200'']],
        [[Some ''Producto'', Some ''Unidad''], [Some ''Yuca'', Some ''kg'']]]"
    by (simp add: tablas_utiles_def)
  show ?thesis
    using sin_tablas_utiles [of "[[[[Some ''Precios'']]], []]"]
      sin_tablas_utiles
        [of "[[[[Some ''Producto'', Some ''Precio''], [Some ''Papa'', Some ''1200'']]],
              [[[Some ''Producto'', Some ''Unidad''], [Some ''Yuca'', Some ''kg'']]]]"]
    by (simp add: a b rectangular_def)
qed

end
